theory Spec2Isabelle
  imports Complex_Main "HOL-Library.Multiset" "HOL-Library.Char_ord" "HOL-Library.List_Lexorder"
    "HOL-Library.Product_Lexorder"
begin

section \<open>Python values used by wifiapp.py\<close>

text \<open>
  Python integers are unbounded and are modelled by \<open>int\<close>. Exceptions are values of a
  sum type, \<open>Inl\<close> carrying the exception.

  A Python float is an IEEE double. A finite double is modelled by the real number it is,
  and every operation on doubles by the exact operation followed by the rounding to the
  nearest double, \<open>round_double\<close>. A real of magnitude \<open>2^1024 - 2^970\<close> or more has no
  finite double nearest to it, so that is where an operation overflows.
\<close>

datatype py_exception =
  OverflowError | ZeroDivisionError | ValueError | OSError | CalledProcessError

datatype py_float = Fin real | PInf | NInf

definition DBL_OVF :: real where
  "DBL_OVF = 2 ^ 1024 - 2 ^ 970"

definition float_overflows :: "real \<Rightarrow> bool" where
  "float_overflows x \<longleftrightarrow> DBL_OVF \<le> \<bar>x\<bar>"

text \<open>The order of floats, with the infinities at the two ends.\<close>

fun float_le :: "py_float \<Rightarrow> py_float \<Rightarrow> bool" where
  "float_le NInf _ = True"
| "float_le _ PInf = True"
| "float_le (Fin x) (Fin y) = (x \<le> y)"
| "float_le _ _ = False"

text \<open>Rounding to the nearest integer, to the even one of two that are equally near.\<close>

definition round_half_even :: "real \<Rightarrow> int" where
  "round_half_even x =
     (let f = \<lfloor>x\<rfloor>; d = x - of_int f
      in if d < 1 / 2 then f
         else if 1 / 2 < d then f + 1
         else if even f then f else f + 1)"

text \<open>
  Rounding to the nearest double, ties to even. The doubles next to \<open>x\<close> are the
  multiples of \<open>ulp x\<close>: 53 significant bits in the binade of \<open>x\<close>, and the spacing of
  the least normal binade below it.
\<close>

definition binade :: "real \<Rightarrow> int" where
  "binade x = max \<lfloor>log 2 \<bar>x\<bar>\<rfloor> (- 1022)"

definition ulp :: "real \<Rightarrow> real" where
  "ulp x = 2 powr (of_int (binade x) - 52)"

definition round_double :: "real \<Rightarrow> real" where
  "round_double x = of_int (round_half_even (x / ulp x)) * ulp x"

text \<open>
  \<open>a / b\<close> on two Python integers: true division, the quotient correctly rounded. It
  raises ZeroDivisionError on a zero divisor and OverflowError when the quotient is too
  large for a float.
\<close>

definition true_div :: "int \<Rightarrow> int \<Rightarrow> py_exception + real" where
  "true_div a b =
     (if b = 0 then Inl ZeroDivisionError
      else if float_overflows (real_of_int a / real_of_int b) then Inl OverflowError
      else Inr (round_double (real_of_int a / real_of_int b)))"

text \<open>
  \<open>b ** e\<close> with a positive base and a float exponent. Python returns 1.0 for the
  exponent 0 and otherwise calls \<open>pow\<close> of the C library, which is not part of the
  repository and is a parameter here, \<open>libm_pow\<close>: the double it computes, taken before
  the check of the range. Python raises OverflowError when that result is out of the
  double range; an underflow is no error.
\<close>

definition float_pow :: "(real \<Rightarrow> real \<Rightarrow> real) \<Rightarrow> real \<Rightarrow> real \<Rightarrow> py_exception + real" where
  "float_pow libm_pow b e =
     (if e = 0 then Inr 1
      else if float_overflows (libm_pow b e) then Inl OverflowError
      else Inr (libm_pow b e))"

text \<open>
  What is known of \<open>pow\<close> without its code: its accuracy. For the base 10 the result is
  within 4 units in the last place of the power (the libraries in use stay within 1),
  and where the power is below the normal range it lies between 0 and twice the least
  normal double.
\<close>

definition libm_accurate :: "(real \<Rightarrow> real \<Rightarrow> real) \<Rightarrow> bool" where
  "libm_accurate libm_pow \<longleftrightarrow>
     (\<forall>e. 2 powr (- 1022) \<le> 10 powr e \<longrightarrow>
          \<bar>libm_pow 10 e - 10 powr e\<bar> \<le> 10 powr e / 2 ^ 50) \<and>
     (\<forall>e. 10 powr e < 2 powr (- 1022) \<longrightarrow>
          0 \<le> libm_pow 10 e \<and> libm_pow 10 e \<le> 2 powr (- 1021))"

text \<open>One such \<open>pow\<close>, for the examples: the power correctly rounded.\<close>

definition correctly_rounded_pow :: "real \<Rightarrow> real \<Rightarrow> real" where
  "correctly_rounded_pow b e = round_double (b powr e)"

text \<open>
  The product of two finite floats never raises: beyond the double range it is an
  infinity.
\<close>

definition float_mul :: "real \<Rightarrow> real \<Rightarrow> py_float" where
  "float_mul x y =
     (if DBL_OVF \<le> x * y then PInf
      else if x * y \<le> - DBL_OVF then NInf
      else Fin (round_double (x * y)))"

text \<open>
  \<open>round(x, n)\<close>: the multiple of \<open>10^-n\<close> closest to the double \<open>x\<close>, the even one of
  two that are equally close; an infinity rounds to itself. Python returns the double
  nearest to that decimal number. The model keeps the decimal number, which names that
  double: for the doubles \<open>round\<close> returns, the order of the decimals is the order of the
  doubles.
\<close>

fun py_round :: "py_float \<Rightarrow> nat \<Rightarrow> py_float" where
  "py_round (Fin x) n = Fin (of_int (round_half_even (x * 10 ^ n)) / 10 ^ n)"
| "py_round PInf n = PInf"
| "py_round NInf n = NInf"

section \<open>The distance estimator\<close>

definition REFERENCE_RSSI :: int where
  "REFERENCE_RSSI = - 50"

definition PATH_LOSS_EXPONENT :: int where
  "PATH_LOSS_EXPONENT = 2"

text \<open>The normalization at the head of \<open>calculate_distance\<close>.\<close>

definition normalize_rssi :: "int \<Rightarrow> int" where
  "normalize_rssi rssi = (if rssi > 0 then rssi - 100 else rssi)"

text \<open>
  The formula of \<open>calculate_distance\<close>, on the RSSI after normalization: the exponent,
  the distance in meters, the distance in feet (the literal 3.28084 is the double nearest
  to it), rounded to 2 places. Either the division or the power may raise.
\<close>

definition path_loss_feet :: "(real \<Rightarrow> real \<Rightarrow> real) \<Rightarrow> int \<Rightarrow> py_exception + py_float" where
  "path_loss_feet libm_pow rssi =
     (case true_div (REFERENCE_RSSI - rssi) (10 * PATH_LOSS_EXPONENT) of
        Inl e \<Rightarrow> Inl e
      | Inr exponent \<Rightarrow>
          (case float_pow libm_pow 10 exponent of
             Inl e \<Rightarrow> Inl e
           | Inr distance_meters \<Rightarrow>
               Inr (py_round
                 (float_mul distance_meters (round_double (328084 / 100000))) 2)))"

text \<open>
  \<open>calculate_distance\<close>: the body runs inside \<open>try\<close>, and \<open>except Exception\<close> returns 0
  for whatever it raised.
\<close>

definition calculate_distance :: "(real \<Rightarrow> real \<Rightarrow> real) \<Rightarrow> int \<Rightarrow> py_float" where
  "calculate_distance libm_pow rssi =
     (case path_loss_feet libm_pow (normalize_rssi rssi) of
        Inl e \<Rightarrow> Fin 0
      | Inr distance \<Rightarrow> distance)"

section \<open>The signal source adapter\<close>

text \<open>
  Text is modelled by \<open>string\<close>, one \<open>char\<close> for one character with a code point
  below 256. \<open>str.strip\<close> removes the white space at both ends: the characters for
  which \<open>str.isspace\<close> holds. \<open>str.split\<close> cuts at every separator and always returns
  at least one piece.
\<close>

definition is_space :: "char \<Rightarrow> bool" where
  "is_space c \<longleftrightarrow>
     c \<in> set [CHR 0x09, CHR 0x0A, CHR 0x0B, CHR 0x0C, CHR 0x0D,
                CHR 0x1C, CHR 0x1D, CHR 0x1E, CHR 0x1F, CHR 0x20, CHR 0x85, CHR 0xA0]"

definition strip_chars :: "(char \<Rightarrow> bool) \<Rightarrow> string \<Rightarrow> string" where
  "strip_chars p s = rev (dropWhile p (rev (dropWhile p s)))"

definition strip :: "string \<Rightarrow> string" where
  "strip s = strip_chars is_space s"

fun split :: "char \<Rightarrow> string \<Rightarrow> string list" where
  "split sep [] = [[]]"
| "split sep (c # cs) =
     (if c = sep then [] # split sep cs
      else (case split sep cs of
              w # ws \<Rightarrow> (c # w) # ws
            | [] \<Rightarrow> [[c]]))"

text \<open>
  \<open>int(s)\<close> on a string: white space around (of the ASCII characters only the six of
  C's \<open>isspace\<close>), an optional sign, then decimal digits, where a single underscore may
  stand between two digits. Anything else raises ValueError, and so does a text of more
  than 4300 digits (the limit of Python 3.11 and later).
\<close>

definition is_int_space :: "char \<Rightarrow> bool" where
  "is_int_space c \<longleftrightarrow>
     c \<in> set [CHR 0x09, CHR 0x0A, CHR 0x0B, CHR 0x0C, CHR 0x0D, CHR 0x20, CHR 0x85, CHR 0xA0]"

definition MAX_STR_DIGITS :: nat where
  "MAX_STR_DIGITS = 4300"

definition is_digit :: "char \<Rightarrow> bool" where
  "is_digit c \<longleftrightarrow> CHR ''0'' \<le> c \<and> c \<le> CHR ''9''"

definition digit_val :: "char \<Rightarrow> int" where
  "digit_val c = int (of_char c) - 48"

fun parse_digits :: "int \<Rightarrow> string \<Rightarrow> int option" where
  "parse_digits acc [] = Some acc"
| "parse_digits acc [c] =
     (if is_digit c then Some (acc * 10 + digit_val c) else None)"
| "parse_digits acc (c # d # ds) =
     (if is_digit c then parse_digits (acc * 10 + digit_val c) (d # ds)
      else if c = CHR ''_'' \<and> is_digit d then parse_digits (acc * 10 + digit_val d) ds
      else None)"

definition parse_unsigned :: "string \<Rightarrow> int option" where
  "parse_unsigned s =
     (case s of
        [] \<Rightarrow> None
      | c # cs \<Rightarrow> if is_digit c then parse_digits (digit_val c) cs else None)"

definition py_int :: "string \<Rightarrow> py_exception + int" where
  "py_int s =
     (let t = strip_chars is_int_space s;
          v = (case t of
                 [] \<Rightarrow> None
               | c # cs \<Rightarrow>
                   if c = CHR ''-'' then map_option uminus (parse_unsigned cs)
                   else if c = CHR ''+'' then parse_unsigned cs
                   else parse_unsigned t)
      in if MAX_STR_DIGITS < length (filter is_digit t) then Inl ValueError
         else case v of None \<Rightarrow> Inl ValueError | Some n \<Rightarrow> Inr n)"

text \<open>
  The loop of \<open>get_wifi_signal\<close> over the lines of the output. A line that does not
  split into exactly two pieces makes the tuple assignment raise ValueError, and so does
  a signal that is no integer.
\<close>

fun parse_lines :: "string list \<Rightarrow> py_exception + (string \<times> int) list" where
  "parse_lines [] = Inr []"
| "parse_lines (line # lines) =
     (case split CHR '':'' line of
        [ssid, signal] \<Rightarrow>
          (case py_int signal of
             Inl e \<Rightarrow> Inl e
           | Inr n \<Rightarrow>
               (case parse_lines lines of
                  Inl e \<Rightarrow> Inl e
                | Inr wifi_info \<Rightarrow> Inr ((ssid, n) # wifi_info)))
      | _ \<Rightarrow> Inl ValueError)"

text \<open>
  A line on which the loop of \<open>get_wifi_signal\<close> raises: it does not split into exactly
  two pieces at the colons, or its second piece is no integer.
\<close>

definition malformed_line :: "string \<Rightarrow> bool" where
  "malformed_line line =
     (case split CHR '':'' line of
        [ssid, signal] \<Rightarrow> isl (py_int signal)
      | _ \<Rightarrow> True)"

text \<open>
  \<open>get_wifi_signal\<close>. Its argument is what \<open>subprocess.check_output\<close> did: \<open>Inl\<close> the
  exception it raised (the utility is missing, not permitted, or exits with an error),
  \<open>Inr\<close> the text it printed. \<open>except Exception\<close> turns every exception into the empty
  list.
\<close>

definition get_wifi_signal :: "py_exception + string \<Rightarrow> (string \<times> int) list" where
  "get_wifi_signal result =
     (case result of
        Inl e \<Rightarrow> []
      | Inr out \<Rightarrow>
          (case parse_lines (split CHR 0x0A (strip out)) of
             Inl e \<Rightarrow> []
           | Inr wifi_info \<Rightarrow> wifi_info))"

section \<open>The log store\<close>

text \<open>
  A row of the table \<open>wifi_signal\<close>, its columns in the order of the table. The database
  is the list of rows in insertion order together with the counter from which
  AUTOINCREMENT takes the next id. The column \<open>rssi\<close> is an INTEGER of 64 bits:
  \<open>sqlite3\<close> raises OverflowError for a Python integer outside that range. Failures of
  the storage itself (a full disk, a locked file) are outside this model.
\<close>

record reading =
  row_id :: int
  timestamp :: string
  ssid :: string
  rssi :: int
  distance :: py_float

record database =
  rows :: "reading list"
  seq :: int

definition empty_database :: database where
  "empty_database = \<lparr>rows = [], seq = 0\<rparr>"

text \<open>
  What \<open>datetime.now()\<close> returns, to the second, and its text in the format
  \<open>%Y-%m-%d %H:%M:%S\<close>: every field in decimal, padded with zeros to its width. The year
  has four digits from 1000 to 9999, the years \<open>valid_datetime\<close> admits.
\<close>

record datetime =
  year :: nat
  month :: nat
  day :: nat
  hour :: nat
  minute :: nat
  second :: nat

definition valid_datetime :: "datetime \<Rightarrow> bool" where
  "valid_datetime d \<longleftrightarrow>
     1000 \<le> year d \<and> year d \<le> 9999 \<and> 1 \<le> month d \<and> month d \<le> 12 \<and>
     1 \<le> day d \<and> day d \<le> 31 \<and> hour d < 24 \<and> minute d < 60 \<and> second d < 60"

text \<open>The order of time: year first, second last.\<close>

definition chronological :: "datetime \<Rightarrow> nat \<times> nat \<times> nat \<times> nat \<times> nat \<times> nat" where
  "chronological d = (year d, month d, day d, hour d, minute d, second d)"

definition digit_char :: "nat \<Rightarrow> char" where
  "digit_char n = char_of (48 + n mod 10)"

definition pad2 :: "nat \<Rightarrow> string" where
  "pad2 n = [digit_char (n div 10), digit_char n]"

definition pad4 :: "nat \<Rightarrow> string" where
  "pad4 n = [digit_char (n div 1000), digit_char (n div 100), digit_char (n div 10), digit_char n]"

definition strftime :: "datetime \<Rightarrow> string" where
  "strftime d =
     pad4 (year d) @ ''-'' @ pad2 (month d) @ ''-'' @ pad2 (day d) @ '' '' @
     pad2 (hour d) @ '':'' @ pad2 (minute d) @ '':'' @ pad2 (second d)"

definition fits_sqlite_integer :: "int \<Rightarrow> bool" where
  "fits_sqlite_integer n \<longleftrightarrow> - (2 ^ 63) \<le> n \<and> n < 2 ^ 63"

text \<open>
  \<open>log_to_database\<close>; \<open>now\<close> is what \<open>datetime.now()\<close> returns at the call. When
  \<open>cursor.execute\<close> raises, nothing has been written.
\<close>

definition log_to_database ::
  "datetime \<Rightarrow> string \<Rightarrow> int \<Rightarrow> py_float \<Rightarrow> database \<Rightarrow> py_exception + database" where
  "log_to_database now ssid' rssi' distance' db =
     (let timestamp' = strftime now
      in if \<not> fits_sqlite_integer rssi' then Inl OverflowError
         else Inr (db\<lparr>rows := rows db @
               [\<lparr>row_id = seq db + 1, timestamp = timestamp', ssid = ssid', rssi = rssi',
                 distance = distance'\<rparr>],
            seq := seq db + 1\<rparr>))"

text \<open>A clock for the examples: the seconds of the first minute of 2024.\<close>

definition sample_clock :: "nat \<Rightarrow> datetime" where
  "sample_clock k = \<lparr>year = 2024, month = 1, day = 1, hour = 0, minute = 0, second = k\<rparr>"

text \<open>
  \<open>ORDER BY timestamp DESC\<close>: the column is text and is compared character by
  character. SQL leaves the order of rows with equal timestamps open; here they keep
  their insertion order, and no theorem below depends on that choice.
\<close>

definition order_by_timestamp_desc :: "reading list \<Rightarrow> reading list" where
  "order_by_timestamp_desc rs = rev (sort_key timestamp (rev rs))"

text \<open>
  \<open>fetch_logs\<close>; \<open>if filter_ssid:\<close> is false for \<open>None\<close> and for the empty string.
\<close>

definition fetch_logs :: "string option \<Rightarrow> database \<Rightarrow> reading list" where
  "fetch_logs filter_ssid db =
     (if filter_ssid \<noteq> None \<and> filter_ssid \<noteq> Some []
      then order_by_timestamp_desc (filter (\<lambda>r. ssid r = the filter_ssid) (rows db))
      else order_by_timestamp_desc (rows db))"

section \<open>The export adapter\<close>

text \<open>
  The CSV file is modelled by its records, each a list of fields, before the writer
  renders them as text.
\<close>

datatype csv_field = CInt int | CText string | CFloat py_float

definition csv_header :: "csv_field list" where
  "csv_header =
     [CText ''ID'', CText ''Timestamp'', CText ''SSID'', CText ''RSSI (dBm)'',
      CText ''Distance (m)'']"

definition row_fields :: "reading \<Rightarrow> csv_field list" where
  "row_fields r =
     [CInt (row_id r), CText (timestamp r), CText (ssid r), CInt (rssi r),
      CFloat (distance r)]"

text \<open>\<open>export_logs_to_csv\<close> returns the name of the file; the second component is what it wrote.\<close>

definition export_logs_to_csv :: "database \<Rightarrow> string \<times> csv_field list list" where
  "export_logs_to_csv db =
     (let logs = fetch_logs None db
      in (''wifi_signal_logs.csv'', csv_header # map row_fields logs))"

section \<open>The request handlers\<close>

text \<open>
  The loop of \<open>scan\<close>. The clock is the sequence of the times it will be read at:
  \<open>now 0\<close> is what the next insert reads, \<open>now \<circ> Suc\<close> is the clock after it. Every
  insert is committed on its own, and \<open>scan\<close> catches nothing: when an insert raises, the
  loop ends there with the rows it has written so far.
\<close>

fun scan_loop ::
  "(real \<Rightarrow> real \<Rightarrow> real) \<Rightarrow> (nat \<Rightarrow> datetime) \<Rightarrow> (string \<times> int) list \<Rightarrow> database
     \<Rightarrow> py_exception option \<times> database" where
  "scan_loop libm_pow now [] db = (None, db)"
| "scan_loop libm_pow now ((ssid', rssi') # wifi_signals) db =
     (if rssi' < - 80 then scan_loop libm_pow now wifi_signals db
      else (case log_to_database (now 0) ssid' rssi' (calculate_distance libm_pow rssi') db of
              Inl e \<Rightarrow> (Some e, db)
            | Inr db' \<Rightarrow> scan_loop libm_pow (now \<circ> Suc) wifi_signals db'))"

text \<open>
  \<open>scan\<close> returns its response and the database it leaves: the status of the JSON
  answer, or the exception that ended the request.
\<close>

definition scan ::
  "(real \<Rightarrow> real \<Rightarrow> real) \<Rightarrow> (nat \<Rightarrow> datetime) \<Rightarrow> py_exception + string \<Rightarrow> database
     \<Rightarrow> (py_exception + string) \<times> database" where
  "scan libm_pow now result db =
     (let wifi_signals = get_wifi_signal result
      in if wifi_signals \<noteq> [] then
           (case scan_loop libm_pow now wifi_signals db of
              (Some e, db') \<Rightarrow> (Inl e, db')
            | (None, db') \<Rightarrow> (Inr ''Scan complete'', db'))
         else (Inr ''Scan complete'', db))"

text \<open>\<open>debug_logs\<close> returns the entries of its JSON list: SSID, RSSI, Distance.\<close>

fun debug_loop ::
  "(real \<Rightarrow> real \<Rightarrow> real) \<Rightarrow> (string \<times> int) list \<Rightarrow> (string \<times> int \<times> py_float) list" where
  "debug_loop libm_pow [] = []"
| "debug_loop libm_pow ((ssid', rssi') # wifi_signals) =
     (if rssi' < - 80 then debug_loop libm_pow wifi_signals
      else (ssid', rssi', calculate_distance libm_pow rssi') # debug_loop libm_pow wifi_signals)"

definition debug_logs ::
  "(real \<Rightarrow> real \<Rightarrow> real) \<Rightarrow> py_exception + string \<Rightarrow> (string \<times> int \<times> py_float) list" where
  "debug_logs libm_pow result = debug_loop libm_pow (get_wifi_signal result)"

section \<open>Properties of the float model\<close>

subsection \<open>Rounding to the nearest double\<close>

lemma round_half_even_bounds:
  "\<lfloor>x\<rfloor> \<le> round_half_even x" "round_half_even x \<le> \<lfloor>x\<rfloor> + 1"
  by (simp_all add: round_half_even_def Let_def)

lemma round_half_even_mono:
  assumes "x \<le> y"
  shows "round_half_even x \<le> round_half_even y"
proof (cases "\<lfloor>x\<rfloor> = \<lfloor>y\<rfloor>")
  case True
  then show ?thesis
    using assms by (auto simp: round_half_even_def Let_def)
next
  case False
  then have "\<lfloor>x\<rfloor> + 1 \<le> \<lfloor>y\<rfloor>"
    using floor_mono [OF assms] by linarith
  then show ?thesis
    using round_half_even_bounds(2) [of x] round_half_even_bounds(1) [of y] by linarith
qed

lemma round_half_even_of_int: "round_half_even (of_int k) = k"
  by (simp add: round_half_even_def)

lemma round_half_even_error: "\<bar>of_int (round_half_even x) - x\<bar> \<le> 1 / 2"
  by (auto simp: round_half_even_def Let_def abs_le_iff)

lemma round_half_even_nonneg: "0 \<le> x \<Longrightarrow> 0 \<le> round_half_even x"
  using round_half_even_mono [of 0 x] round_half_even_of_int [of 0] by simp

lemma round_half_even_nonpos: "x \<le> 0 \<Longrightarrow> round_half_even x \<le> 0"
  using round_half_even_mono [of x 0] round_half_even_of_int [of 0] by simp

lemma ulp_pos: "0 < ulp x"
  by (simp add: ulp_def)

lemma round_double_zero: "round_double 0 = 0"
  by (simp add: round_double_def round_half_even_def)

lemma round_double_nonneg: "0 \<le> x \<Longrightarrow> 0 \<le> round_double x"
  using ulp_pos [of x] by (simp add: round_double_def round_half_even_nonneg)

lemma round_double_nonpos: "x \<le> 0 \<Longrightarrow> round_double x \<le> 0"
  using ulp_pos [of x]
  by (simp add: round_double_def round_half_even_nonpos mult_le_0_iff divide_le_0_iff)

lemma round_double_abs_error: "\<bar>round_double x - x\<bar> \<le> ulp x / 2"
proof -
  have "\<bar>of_int (round_half_even (x / ulp x)) - x / ulp x\<bar> * ulp x \<le> 1 / 2 * ulp x"
    using round_half_even_error [of "x / ulp x"] ulp_pos [of x]
    by (intro mult_right_mono) simp_all
  moreover have "\<bar>of_int (round_half_even (x / ulp x)) - x / ulp x\<bar> * ulp x
      = \<bar>round_double x - x\<bar>"
  proof -
    have "(of_int (round_half_even (x / ulp x)) - x / ulp x) * ulp x = round_double x - x"
      using ulp_pos [of x] by (simp add: round_double_def left_diff_distrib)
    then have "\<bar>round_double x - x\<bar>
        = \<bar>of_int (round_half_even (x / ulp x)) - x / ulp x\<bar> * \<bar>ulp x\<bar>"
      by (simp only: abs_mult [symmetric])
    then show ?thesis using ulp_pos [of x] by simp
  qed
  ultimately show ?thesis by simp
qed

text \<open>In the normal range the binade of x is the floor of its binary logarithm.\<close>

lemma binade_lower:
  assumes "2 powr (- 1022) \<le> \<bar>x\<bar>"
  shows "2 powr (of_int (binade x)) \<le> \<bar>x\<bar>"
proof -
  have pos: "0 < \<bar>x\<bar>" using assms by (smt (verit) powr_gt_zero)
  have "- 1022 \<le> log 2 \<bar>x\<bar>"
    using assms pos by (simp add: le_log_iff)
  then have "(- 1022 :: int) \<le> \<lfloor>log 2 \<bar>x\<bar>\<rfloor>"
    by (simp add: le_floor_iff)
  then have "binade x = \<lfloor>log 2 \<bar>x\<bar>\<rfloor>"
    by (simp add: binade_def)
  moreover have "2 powr (of_int \<lfloor>log 2 \<bar>x\<bar>\<rfloor>) \<le> 2 powr (log 2 \<bar>x\<bar>)"
    by (intro powr_mono) simp_all
  ultimately show ?thesis using pos by simp
qed

lemma binade_upper:
  assumes "x \<noteq> 0"
  shows "\<bar>x\<bar> < 2 powr (of_int (binade x) + 1)"
proof -
  have pos: "0 < \<bar>x\<bar>" using assms by simp
  have "log 2 \<bar>x\<bar> < of_int \<lfloor>log 2 \<bar>x\<bar>\<rfloor> + 1" by linarith
  also have "\<dots> \<le> of_int (binade x) + 1" by (simp add: binade_def)
  finally have "2 powr (log 2 \<bar>x\<bar>) < 2 powr (of_int (binade x) + 1)"
    by (intro powr_less_mono) simp_all
  then show ?thesis using pos by simp
qed

lemma round_double_rel_error:
  assumes "2 powr (- 1022) \<le> \<bar>x\<bar>"
  shows "\<bar>round_double x - x\<bar> \<le> \<bar>x\<bar> / 2 ^ 53"
proof -
  have "ulp x = 2 powr (of_int (binade x)) / 2 ^ 52"
    by (simp add: ulp_def powr_diff powr_realpow [symmetric])
  also have "\<dots> \<le> \<bar>x\<bar> / 2 ^ 52"
    using binade_lower [OF assms] by (intro divide_right_mono) simp_all
  finally have "ulp x / 2 \<le> \<bar>x\<bar> / 2 ^ 52 / 2" by simp
  then show ?thesis using round_double_abs_error [of x] by simp
qed

lemma binade_lower':
  assumes "x \<noteq> 0" "- 1022 < binade x"
  shows "2 powr (of_int (binade x)) \<le> \<bar>x\<bar>"
proof -
  have pos: "0 < \<bar>x\<bar>" using assms(1) by simp
  have "binade x = \<lfloor>log 2 \<bar>x\<bar>\<rfloor>"
    using assms(2) by (simp add: binade_def max_def split: if_splits)
  moreover have "2 powr (of_int \<lfloor>log 2 \<bar>x\<bar>\<rfloor>) \<le> 2 powr (log 2 \<bar>x\<bar>)"
    by (intro powr_mono) simp_all
  ultimately show ?thesis using pos by simp
qed

lemma binade_mono:
  assumes "0 < x" "x \<le> y"
  shows "binade x \<le> binade y"
proof -
  have "log 2 \<bar>x\<bar> \<le> log 2 \<bar>y\<bar>" using assms by simp
  then have "\<lfloor>log 2 \<bar>x\<bar>\<rfloor> \<le> \<lfloor>log 2 \<bar>y\<bar>\<rfloor>" by (rule floor_mono)
  then show ?thesis by (simp add: binade_def)
qed

lemma ulp_times: "ulp x * 2 ^ 52 = 2 powr (of_int (binade x))"
  by (simp add: ulp_def powr_diff powr_realpow [symmetric])

lemma round_double_below_binade_top:
  assumes "0 < x"
  shows "round_double x \<le> 2 powr (of_int (binade x) + 1)"
proof -
  have "x < 2 powr (of_int (binade x) + 1)"
    using binade_upper [of x] assms by simp
  also have "\<dots> = 2 ^ 53 * ulp x"
    using ulp_times [of x] by (simp add: powr_add)
  finally have "x / ulp x \<le> 2 ^ 53"
    using ulp_pos [of x] by (simp add: pos_divide_le_eq)
  then have "round_half_even (x / ulp x) \<le> round_half_even (of_int (2 ^ 53))"
    by (intro round_half_even_mono) simp
  then have "round_half_even (x / ulp x) \<le> 2 ^ 53"
    by (simp only: round_half_even_of_int)
  then have "real_of_int (round_half_even (x / ulp x)) \<le> 2 ^ 53"
    by (metis of_int_le_iff of_int_numeral of_int_power)
  then have "round_double x \<le> 2 ^ 53 * ulp x"
    unfolding round_double_def using ulp_pos [of x] by (intro mult_right_mono) simp_all
  also have "\<dots> = 2 powr (of_int (binade x) + 1)"
    using ulp_times [of x] by (simp add: powr_add)
  finally show ?thesis .
qed

lemma round_double_above_binade_bottom:
  assumes "0 < y" "- 1022 < binade y"
  shows "2 powr (of_int (binade y)) \<le> round_double y"
proof -
  have "2 ^ 52 * ulp y = 2 powr (of_int (binade y))"
    using ulp_times [of y] by (simp add: mult.commute)
  also have "\<dots> \<le> y"
    using binade_lower' [of y] assms by simp
  finally have "2 ^ 52 \<le> y / ulp y"
    using ulp_pos [of y] by (simp add: pos_le_divide_eq)
  then have "round_half_even (of_int (2 ^ 52)) \<le> round_half_even (y / ulp y)"
    by (intro round_half_even_mono) simp
  then have "2 ^ 52 \<le> round_half_even (y / ulp y)"
    by (simp only: round_half_even_of_int)
  then have "2 ^ 52 \<le> real_of_int (round_half_even (y / ulp y))"
    by (metis of_int_le_iff of_int_numeral of_int_power)
  then have "2 ^ 52 * ulp y \<le> round_double y"
    unfolding round_double_def using ulp_pos [of y] by (intro mult_right_mono) simp_all
  then show ?thesis
    using ulp_times [of y] by (simp add: mult.commute)
qed

lemma round_double_mono_pos:
  assumes "0 < x" "x \<le> y"
  shows "round_double x \<le> round_double y"
proof (cases "binade x = binade y")
  case True
  then have u: "ulp x = ulp y" by (simp add: ulp_def)
  have "x / ulp y \<le> y / ulp y"
    using assms(2) ulp_pos [of y] by (intro divide_right_mono) simp_all
  then have "round_half_even (x / ulp y) \<le> round_half_even (y / ulp y)"
    by (rule round_half_even_mono)
  then show ?thesis
    unfolding round_double_def u using ulp_pos [of y] by (intro mult_right_mono) simp_all
next
  case False
  then have lt: "binade x + 1 \<le> binade y"
    using binade_mono [OF assms] by simp
  have "- 1022 \<le> binade x" by (simp add: binade_def)
  then have big: "- 1022 < binade y" using lt by simp
  have "round_double x \<le> 2 powr (of_int (binade x) + 1)"
    using assms(1) by (rule round_double_below_binade_top)
  also have "\<dots> \<le> 2 powr (of_int (binade y))"
  proof (rule powr_mono)
    show "real_of_int (binade x) + 1 \<le> real_of_int (binade y)" using lt by linarith
  qed simp
  also have "\<dots> \<le> round_double y"
    using assms big by (intro round_double_above_binade_bottom) simp_all
  finally show ?thesis .
qed

lemma round_double_mono:
  assumes "x \<le> y" "0 \<le> y"
  shows "round_double x \<le> round_double y"
proof (cases "0 < x")
  case True
  then show ?thesis using assms(1) by (rule round_double_mono_pos)
next
  case False
  then have "round_double x \<le> 0" by (intro round_double_nonpos) simp
  then show ?thesis using round_double_nonneg [OF assms(2)] by simp
qed

lemma least_normal_le_one: "2 powr (- 1022) \<le> (1::real)"
  using powr_mono [of "- 1022" 0 "2::real"] by simp

lemma round_double_near:
  assumes "1 / 100 \<le> x" "x \<le> 512"
  shows "\<bar>round_double x - x\<bar> \<le> 1 / 2 ^ 44"
proof -
  have "2 powr (- 1022) \<le> \<bar>x\<bar>"
  proof -
    have "2 powr (- 1022) \<le> 2 powr (- 7 :: real)" by (intro powr_mono) simp_all
    also have "\<dots> = 1 / 2 ^ 7" by (simp add: powr_minus powr_realpow [symmetric] divide_simps)
    also have "\<dots> \<le> \<bar>x\<bar>" using assms(1) by simp
    finally show ?thesis .
  qed
  then have "\<bar>round_double x - x\<bar> \<le> \<bar>x\<bar> / 2 ^ 53"
    by (rule round_double_rel_error)
  also have "\<dots> \<le> 512 / 2 ^ 53" using assms by (intro divide_right_mono) simp_all
  also have "\<dots> = 1 / 2 ^ 44" by simp
  finally show ?thesis .
qed

lemma round_double_upper:
  assumes "x \<le> X" "X = 0 \<or> 1 / 100 \<le> X" "X \<le> 512"
  shows "round_double x \<le> X + 1 / 4096"
proof -
  have "0 \<le> X" using assms(2) by auto
  then have "round_double x \<le> round_double X"
    using assms(1) by (intro round_double_mono)
  moreover have "round_double X \<le> X + 1 / 4096"
  proof (cases "X = 0")
    case True
    then show ?thesis by (simp add: round_double_zero)
  next
    case False
    then have "\<bar>round_double X - X\<bar> \<le> 1 / 2 ^ 44"
      using assms by (intro round_double_near) auto
    moreover have "(1::real) / 2 ^ 44 \<le> 1 / 4096" by simp
    ultimately show ?thesis by linarith
  qed
  ultimately show ?thesis by simp
qed

lemma round_double_lower:
  assumes "X \<le> x" "1 / 100 \<le> X" "X \<le> 512"
  shows "X - 1 / 4096 \<le> round_double x"
proof -
  have "0 \<le> x" using assms by simp
  then have "round_double X \<le> round_double x"
    using assms(1) by (intro round_double_mono)
  moreover have "X - 1 / 4096 \<le> round_double X"
  proof -
    have "\<bar>round_double X - X\<bar> \<le> 1 / 2 ^ 44"
      using assms by (intro round_double_near) auto
    moreover have "(1::real) / 2 ^ 44 \<le> 1 / 4096" by simp
    ultimately show ?thesis by linarith
  qed
  ultimately show ?thesis by simp
qed

lemma feet_per_meter_bounds:
  "32808 / 10000 \<le> round_double (328084 / 100000)"
  "round_double (328084 / 100000) \<le> 32809 / 10000"
proof -
  have "\<bar>round_double (328084 / 100000) - 328084 / 100000\<bar> \<le> 1 / 2 ^ 44"
    by (rule round_double_near) simp_all
  moreover have "(1::real) / 2 ^ 44 \<le> 1 / 100000" by simp
  ultimately show "32808 / 10000 \<le> round_double (328084 / 100000)"
    "round_double (328084 / 100000) \<le> 32809 / 10000"
    by linarith+
qed

subsection \<open>The double range against powers of ten\<close>

lemma DBL_OVF_lower: "(10::real) ^ 308 * (1797 / 1000) < DBL_OVF"
  by (simp add: DBL_OVF_def)

lemma DBL_OVF_upper: "DBL_OVF < (10::real) ^ 308 * (1798 / 1000)"
  by (simp add: DBL_OVF_def)

lemma DBL_OVF_pos: "0 < DBL_OVF"
proof -
  have "(0::real) < 10 ^ 308 * (1797 / 1000)" by (intro mult_pos_pos zero_less_power) simp_all
  then show ?thesis using DBL_OVF_lower by linarith
qed

lemma root_upper:
  fixes c :: real
  assumes "0 < n" "0 \<le> c" "(10::real) ^ m < c ^ n"
  shows "10 powr (real m / real n) < c"
proof (rule ccontr)
  assume "\<not> 10 powr (real m / real n) < c"
  then have "c \<le> 10 powr (real m / real n)" by simp
  then have "c ^ n \<le> (10 powr (real m / real n)) ^ n"
    using assms(2) by (intro power_mono)
  also have "\<dots> = 10 powr (real m / real n * real n)"
    by (simp add: powr_power)
  also have "\<dots> = 10 powr (real m)" using assms(1) by simp
  also have "\<dots> = 10 ^ m" by (simp add: powr_realpow)
  finally show False using assms(3) by simp
qed

lemma root_lower:
  fixes c :: real
  assumes "0 < n" "0 \<le> c" "c ^ n < (10::real) ^ m"
  shows "c < 10 powr (real m / real n)"
proof (rule ccontr)
  assume "\<not> c < 10 powr (real m / real n)"
  then have "10 powr (real m / real n) \<le> c" by simp
  then have "(10 powr (real m / real n)) ^ n \<le> c ^ n"
    by (intro power_mono) simp_all
  moreover have "(10 powr (real m / real n)) ^ n = 10 powr (real m / real n * real n)"
    by (simp add: powr_power)
  moreover have "\<dots> = 10 powr (real m)" using assms(1) by simp
  moreover have "\<dots> = 10 ^ m" by (simp add: powr_realpow)
  ultimately show False using assms(3) by simp
qed

lemma split_powr:
  "(10::real) powr (real k + q) = 10 ^ k * 10 powr q"
  by (simp add: powr_add powr_realpow)

lemma DBL_OVF_big: "1000 < DBL_OVF"
  by (simp add: DBL_OVF_def)

lemma root_upper_le:
  fixes c :: real
  assumes "0 < n" "0 \<le> c" "(10::real) ^ m \<le> c ^ n"
  shows "10 powr (real m / real n) \<le> c"
proof (rule ccontr)
  assume "\<not> 10 powr (real m / real n) \<le> c"
  then have "c < 10 powr (real m / real n)" by simp
  then have "c ^ n < (10 powr (real m / real n)) ^ n"
    using assms(1,2) by (intro power_strict_mono) simp_all
  also have "\<dots> = 10 powr (real m / real n * real n)"
    by (simp add: powr_power)
  also have "\<dots> = 10 powr (real m)" using assms(1) by simp
  also have "\<dots> = 10 ^ m" by (simp add: powr_realpow)
  finally show False using assms(3) by simp
qed

text \<open>The rounding of an exponent moves the power by less than a quarter of a percent.\<close>

lemma powr_small_step: "(10::real) powr (1 / 4096) \<le> 401 / 400"
proof -
  have "1 + real 4096 * (1 / 400) \<le> (1 + 1 / 400 :: real) ^ 4096"
    by (rule Bernoulli_inequality) simp
  then have "(10::real) ^ 1 \<le> (401 / 400) ^ 4096" by simp
  then have "(10::real) powr (real 1 / real 4096) \<le> 401 / 400"
    by (intro root_upper_le) simp_all
  then show ?thesis by simp
qed

subsection \<open>The power of ten\<close>

lemma float_pow_value:
  "float_pow libm_pow 10 e =
     (if float_overflows (if e = 0 then 1 else libm_pow 10 e) then Inl OverflowError
      else Inr (if e = 0 then 1 else libm_pow 10 e))"
  using DBL_OVF_big by (simp add: float_pow_def float_overflows_def)

lemma libm_pow_nonneg:
  assumes "libm_accurate libm_pow"
  shows "0 \<le> (if e = 0 then 1 else libm_pow 10 e)"
proof (cases "2 powr (- 1022) \<le> (10::real) powr e")
  case True
  then have "\<bar>libm_pow 10 e - 10 powr e\<bar> \<le> 10 powr e / 2 ^ 50"
    using assms by (simp add: libm_accurate_def)
  moreover have "(10::real) powr e / 2 ^ 50 \<le> 10 powr e"
    by (simp add: divide_le_eq)
  ultimately have "0 \<le> libm_pow 10 e" by linarith
  then show ?thesis by simp
next
  case False
  then have "0 \<le> libm_pow 10 e"
    using assms by (simp add: libm_accurate_def)
  then show ?thesis by simp
qed

lemma libm_pow_upper:
  assumes "libm_accurate libm_pow" "e \<le> E" "0 \<le> E"
  shows "(if e = 0 then 1 else libm_pow 10 e) \<le> 10 powr E * (1 + 1 / 2 ^ 50)"
proof -
  have one: "1 \<le> (10::real) powr E" using assms(3) by (simp add: ge_one_powr_ge_zero)
  have mono: "(10::real) powr e \<le> 10 powr E" using assms(2) by (intro powr_mono) simp_all
  have up: "(10::real) powr E \<le> 10 powr E * (1 + 1 / 2 ^ 50)"
    by (simp add: mult_le_cancel_left1)
  show ?thesis
  proof (cases "e = 0")
    case True
    then show ?thesis using one up by simp
  next
    case False
    show ?thesis
    proof (cases "2 powr (- 1022) \<le> (10::real) powr e")
      case True
      then have "\<bar>libm_pow 10 e - 10 powr e\<bar> \<le> 10 powr e / 2 ^ 50"
        using assms(1) by (simp add: libm_accurate_def)
      then have "libm_pow 10 e \<le> 10 powr e + 10 powr e / 2 ^ 50"
        by linarith
      also have "\<dots> = 10 powr e * (1 + 1 / 2 ^ 50)"
        by (simp add: algebra_simps)
      also have "\<dots> \<le> 10 powr E * (1 + 1 / 2 ^ 50)"
        using mono by (intro mult_right_mono) simp_all
      finally show ?thesis using False by simp
    next
      case small: False
      then have "libm_pow 10 e \<le> 2 powr (- 1021)"
        using assms(1) by (simp add: libm_accurate_def)
      also have "\<dots> \<le> (1::real)"
        using powr_mono [of "- 1021" 0 "2::real"] by simp
      finally show ?thesis using False one up by simp
    qed
  qed
qed

lemma libm_pow_lower:
  assumes "libm_accurate libm_pow" "E \<le> e" "0 \<le> E"
  shows "10 powr E * (1 - 1 / 2 ^ 50) \<le> (if e = 0 then 1 else libm_pow 10 e)"
proof (cases "e = 0")
  case True
  then have "E = 0" using assms by simp
  then show ?thesis using True by simp
next
  case False
  have mono: "(10::real) powr E \<le> 10 powr e" using assms(2) by (intro powr_mono) simp_all
  have "0 \<le> e" using assms by simp
  then have "1 \<le> (10::real) powr e" by (simp add: ge_one_powr_ge_zero)
  then have "2 powr (- 1022) \<le> (10::real) powr e"
    using least_normal_le_one by linarith
  then have "\<bar>libm_pow 10 e - 10 powr e\<bar> \<le> 10 powr e / 2 ^ 50"
    using assms(1) by (simp add: libm_accurate_def)
  then have "10 powr e - 10 powr e / 2 ^ 50 \<le> libm_pow 10 e"
    by linarith
  moreover have "10 powr e - 10 powr e / 2 ^ 50 = 10 powr e * (1 - 1 / 2 ^ 50 :: real)"
    by (simp add: algebra_simps)
  ultimately have low: "10 powr e * (1 - 1 / 2 ^ 50) \<le> libm_pow 10 e"
    by simp
  have "10 powr E * (1 - 1 / 2 ^ 50) \<le> 10 powr e * (1 - 1 / 2 ^ 50 :: real)"
    using mono by (intro mult_right_mono) simp_all
  also note low
  finally show ?thesis using False by (simp only: if_False)
qed

lemma powr_bound_up:
  assumes "(10::real) powr q \<le> c"
  shows "10 powr (real k + q + 1 / 4096) * (1 + 1 / 2 ^ 50)
       \<le> 10 ^ k * (c * (401 / 400) * (1001 / 1000))"
proof -
  have "0 \<le> (10::real) powr q" by simp
  then have c: "0 \<le> c" using assms by linarith
  have "(10::real) powr (real k + q + 1 / 4096) = 10 ^ k * (10 powr q * 10 powr (1 / 4096))"
    by (simp add: powr_add powr_realpow)
  also have "\<dots> \<le> 10 ^ k * (c * (401 / 400))"
    using assms powr_small_step c by (intro mult_left_mono mult_mono) simp_all
  finally have "10 powr (real k + q + 1 / 4096) * (1 + 1 / 2 ^ 50)
      \<le> 10 ^ k * (c * (401 / 400)) * (1 + 1 / 2 ^ 50 :: real)"
    by (intro mult_right_mono) simp_all
  also have "\<dots> \<le> 10 ^ k * (c * (401 / 400)) * (1001 / 1000)"
  proof (rule mult_left_mono)
    show "(1 + 1 / 2 ^ 50 :: real) \<le> 1001 / 1000" by simp
    show "0 \<le> 10 ^ k * (c * (401 / 400))" using c by simp
  qed
  finally show ?thesis by (simp add: mult.assoc)
qed

lemma powr_bound_down:
  assumes "c \<le> (10::real) powr q" "0 \<le> c"
  shows "10 ^ k * (c * (400 / 401) * (999 / 1000))
       \<le> 10 powr (real k + q - 1 / 4096) * (1 - 1 / 2 ^ 50)"
proof -
  have "(10::real) powr (1 / 4096) * (400 / 401) \<le> 1"
    using powr_small_step by simp
  then have inv: "400 / 401 \<le> (10::real) powr (- (1 / 4096))"
    by (simp add: powr_minus field_simps)
  have "10 ^ k * (c * (400 / 401)) \<le> 10 ^ k * (10 powr q * 10 powr (- (1 / 4096)) :: real)"
    using assms inv by (intro mult_left_mono mult_mono) simp_all
  also have "\<dots> = 10 powr (real k + (q + - (1 / 4096)))"
    by (simp only: powr_add powr_realpow)
  also have "real k + (q + - (1 / 4096)) = real k + q - 1 / 4096" by simp
  finally have "10 ^ k * (c * (400 / 401)) * (1 - 1 / 2 ^ 50)
      \<le> 10 powr (real k + q - 1 / 4096) * (1 - 1 / 2 ^ 50 :: real)"
    by (intro mult_right_mono) simp_all
  moreover have "10 ^ k * (c * (400 / 401)) * (999 / 1000)
      \<le> 10 ^ k * (c * (400 / 401)) * (1 - 1 / 2 ^ 50 :: real)"
  proof (rule mult_left_mono)
    show "(999 / 1000 :: real) \<le> 1 - 1 / 2 ^ 50" by simp
    show "0 \<le> 10 ^ k * (c * (400 / 401))" using assms(2) by simp
  qed
  ultimately show ?thesis by (simp add: mult.assoc)
qed

lemma root_quarter: "(10::real) powr (1 / 4) \<le> 178 / 100"
proof -
  have "(10::real) powr (real 1 / real 4) < 178 / 100"
    by (rule root_upper) (simp_all add: power_divide)
  then show ?thesis by simp
qed

lemma root_three_tenths: "199 / 100 \<le> (10::real) powr (3 / 10)"
proof -
  have "199 / 100 < (10::real) powr (real 3 / real 10)"
    by (rule root_lower) (simp_all add: power_divide)
  then show ?thesis by simp
qed

lemma root_seventeen_tenths: "(10::real) powr (17 / 10) \<le> 5012 / 100"
proof -
  have "(10::real) powr (real 17 / real 10) < 5012 / 100"
    by (rule root_upper) (simp_all add: power_divide)
  then show ?thesis by simp
qed

lemma root_seven_quarters: "5623 / 100 \<le> (10::real) powr (7 / 4)"
proof -
  have "5623 / 100 < (10::real) powr (real 7 / real 4)"
    by (rule root_lower) (simp_all add: power_divide)
  then show ?thesis by simp
qed

lemma root_twenty_fifth: "109 / 100 \<le> (10::real) powr (1 / 25)"
proof -
  have "109 / 100 < (10::real) powr (real 1 / real 25)"
    by (rule root_lower) (simp_all add: power_divide)
  then show ?thesis by simp
qed

lemma DBL_OVF_lower': "(10::real) ^ 306 * (1797 / 10) < DBL_OVF"
proof -
  have "(10::real) ^ 306 * (1797 / 10) = 10 ^ (306 + 2) * (1797 / 1000)"
    by (simp only: power_add) simp
  then show ?thesis using DBL_OVF_lower by simp
qed

lemma DBL_OVF_upper': "DBL_OVF < (10::real) ^ 306 * (1798 / 10)"
proof -
  have "(10::real) ^ 306 * (1798 / 10) = 10 ^ (306 + 2) * (1798 / 1000)"
    by (simp only: power_add) simp
  then show ?thesis using DBL_OVF_upper by simp
qed

text \<open>
  Where the power and the product leave the double range, for every \<open>pow\<close> as accurate as
  \<open>libm_accurate\<close> asks and every exponent within \<open>1/4096\<close> of the quotient.
\<close>

lemma power_finite:
  assumes "libm_accurate libm_pow" "e \<le> 1233 / 4 + 1 / 4096"
  shows "(if e = 0 then 1 else libm_pow 10 e) < DBL_OVF"
proof -
  have "(if e = 0 then 1 else libm_pow 10 e)
      \<le> 10 powr (real 308 + 1 / 4 + 1 / 4096) * (1 + 1 / 2 ^ 50)"
    using assms by (intro libm_pow_upper) simp_all
  also have "\<dots> \<le> 10 ^ 308 * (178 / 100 * (401 / 400) * (1001 / 1000))"
    using root_quarter by (rule powr_bound_up)
  also have "\<dots> \<le> 10 ^ 308 * (1797 / 1000)"
    by (intro mult_left_mono zero_le_power) simp_all
  also note DBL_OVF_lower
  finally show ?thesis .
qed

lemma power_overflows:
  assumes "libm_accurate libm_pow" "3083 / 10 - 1 / 4096 \<le> e"
  shows "DBL_OVF < (if e = 0 then 1 else libm_pow 10 e)"
proof -
  note DBL_OVF_upper
  also have "(10::real) ^ 308 * (1798 / 1000) \<le> 10 ^ 308 * (199 / 100 * (400 / 401) * (999 / 1000))"
    by (intro mult_left_mono zero_le_power) simp_all
  also have "\<dots> \<le> 10 powr (real 308 + 3 / 10 - 1 / 4096) * (1 - 1 / 2 ^ 50)"
    using root_three_tenths by (intro powr_bound_down) simp_all
  also have "\<dots> \<le> (if e = 0 then 1 else libm_pow 10 e)"
    using assms by (intro libm_pow_lower) simp_all
  finally show ?thesis .
qed

lemma product_finite:
  assumes "libm_accurate libm_pow" "e \<le> 3077 / 10 + 1 / 4096"
  shows "(if e = 0 then 1 else libm_pow 10 e) * round_double (328084 / 100000) < DBL_OVF"
proof -
  have "(if e = 0 then 1 else libm_pow 10 e)
      \<le> 10 powr (real 306 + 17 / 10 + 1 / 4096) * (1 + 1 / 2 ^ 50)"
    using assms by (intro libm_pow_upper) simp_all
  also have "\<dots> \<le> 10 ^ 306 * (5012 / 100 * (401 / 400) * (1001 / 1000))"
    using root_seventeen_tenths by (rule powr_bound_up)
  finally have "(if e = 0 then 1 else libm_pow 10 e) * round_double (328084 / 100000)
      \<le> 10 ^ 306 * (5012 / 100 * (401 / 400) * (1001 / 1000)) * (32809 / 10000)"
    using feet_per_meter_bounds libm_pow_nonneg [OF assms(1), of e]
    by (intro mult_mono) simp_all
  also have "\<dots> = 10 ^ 306 * (5012 / 100 * (401 / 400) * (1001 / 1000) * (32809 / 10000))"
    by simp
  also have "\<dots> \<le> 10 ^ 306 * (1797 / 10)"
    by (intro mult_left_mono zero_le_power) simp_all
  also note DBL_OVF_lower'
  finally show ?thesis .
qed

lemma product_infinite:
  assumes "libm_accurate libm_pow" "1231 / 4 - 1 / 4096 \<le> e"
  shows "DBL_OVF < (if e = 0 then 1 else libm_pow 10 e) * round_double (328084 / 100000)"
proof -
  note DBL_OVF_upper'
  also have "(10::real) ^ 306 * (1798 / 10)
      \<le> 10 ^ 306 * (5623 / 100 * (400 / 401) * (999 / 1000) * (32808 / 10000))"
    by (intro mult_left_mono zero_le_power) simp_all
  also have "\<dots> = 10 ^ 306 * (5623 / 100 * (400 / 401) * (999 / 1000)) * (32808 / 10000)"
    by simp
  also have "\<dots> \<le> (if e = 0 then 1 else libm_pow 10 e) * round_double (328084 / 100000)"
  proof (rule mult_mono)
    have "10 ^ 306 * (5623 / 100 * (400 / 401) * (999 / 1000))
        \<le> 10 powr (real 306 + 7 / 4 - 1 / 4096) * (1 - 1 / 2 ^ 50 :: real)"
      using root_seven_quarters by (intro powr_bound_down) simp_all
    also have "\<dots> \<le> (if e = 0 then 1 else libm_pow 10 e)"
      using assms by (intro libm_pow_lower) simp_all
    finally show "10 ^ 306 * (5623 / 100 * (400 / 401) * (999 / 1000))
        \<le> (if e = 0 then 1 else libm_pow 10 e)" .
    show "32808 / 10000 \<le> round_double (328084 / 100000)"
      by (rule feet_per_meter_bounds)
    show "0 \<le> (if e = 0 then 1 else libm_pow 10 e)"
      using assms(1) by (rule libm_pow_nonneg)
  qed simp
  finally show ?thesis .
qed

text \<open>The correctly rounded power is as accurate as asked.\<close>

lemma correctly_rounded_pow_accurate: "libm_accurate correctly_rounded_pow"
  unfolding libm_accurate_def correctly_rounded_pow_def
proof (intro conjI allI impI)
  fix e :: real
  assume n: "2 powr (- 1022) \<le> (10::real) powr e"
  then have "2 powr (- 1022) \<le> \<bar>(10::real) powr e\<bar>" by simp
  then have "\<bar>round_double (10 powr e) - 10 powr e\<bar> \<le> \<bar>10 powr e\<bar> / 2 ^ 53"
    by (rule round_double_rel_error)
  also have "\<dots> \<le> 10 powr e / 2 ^ 50"
    by (simp add: frac_le)
  finally show "\<bar>round_double (10 powr e) - 10 powr e\<bar> \<le> 10 powr e / 2 ^ 50" .
next
  fix e :: real
  assume s: "(10::real) powr e < 2 powr (- 1022)"
  show "0 \<le> round_double (10 powr e)"
    by (intro round_double_nonneg) simp
  have "round_double (10 powr e) \<le> round_double (2 powr (- 1022))"
    using s by (intro round_double_mono) simp_all
  moreover have "\<bar>round_double (2 powr (- 1022)) - 2 powr (- 1022)\<bar>
      \<le> \<bar>2 powr (- 1022)\<bar> / 2 ^ 53"
    by (rule round_double_rel_error) simp
  moreover have "\<bar>2 powr (- 1022 :: real)\<bar> / 2 ^ 53 \<le> 2 powr (- 1022)"
    by (simp add: divide_le_eq)
  moreover have "(2::real) powr (- 1021) = 2 * 2 powr (- 1022)"
  proof -
    have "(2::real) powr (- 1021) = 2 powr (1 + - 1022)" by simp
    also have "\<dots> = 2 * 2 powr (- 1022)" by (simp only: powr_add powr_one)
    finally show ?thesis .
  qed
  ultimately show "round_double (10 powr e) \<le> 2 powr (- 1021)" by linarith
qed

subsection \<open>Rounding to two places and the float order\<close>

lemma round_half_even_eq:
  assumes "of_int k \<le> y" "y < of_int k + 1 / 2"
  shows "round_half_even y = k"
proof -
  have "\<lfloor>y\<rfloor> = k" using assms by (intro floor_unique) simp_all
  then show ?thesis using assms by (simp add: round_half_even_def)
qed

lemma float_le_refl: "float_le a a"
  by (cases a) simp_all

lemma float_le_trans: "float_le a b \<Longrightarrow> float_le b c \<Longrightarrow> float_le a c"
  by (cases a; cases b; cases c) simp_all

lemma py_round_mono: "float_le a b \<Longrightarrow> float_le (py_round a n) (py_round b n)"
  by (cases a; cases b) (simp_all add: divide_right_mono round_half_even_mono mult_right_mono)

lemma float_mul_mono:
  assumes "0 \<le> c" "0 \<le> y" "x \<le> y"
  shows "float_le (float_mul x c) (float_mul y c)"
proof -
  have le: "x * c \<le> y * c" using assms(1,3) by (rule mult_right_mono [rotated])
  have "0 \<le> y * c" using assms(1,2) by simp
  then have "round_double (x * c) \<le> round_double (y * c)"
    using le by (intro round_double_mono)
  then show ?thesis
    using le DBL_OVF_pos by (auto simp: float_mul_def)
qed

lemma float_mul_pos:
  assumes "0 \<le> x" "0 \<le> c"
  shows "float_mul x c = (if DBL_OVF \<le> x * c then PInf else Fin (round_double (x * c)))"
proof -
  have "0 \<le> x * c" using assms by simp
  then show ?thesis using DBL_OVF_pos by (simp add: float_mul_def)
qed

lemma feet_per_meter_nonneg: "0 \<le> round_double (328084 / 100000)"
  using feet_per_meter_bounds(1) by linarith

section \<open>Properties of the distance estimator\<close>

lemma true_div_exponent:
  "true_div (REFERENCE_RSSI - r) (10 * PATH_LOSS_EXPONENT) =
     (if float_overflows (real_of_int (REFERENCE_RSSI - r) / 20) then Inl OverflowError
      else Inr (round_double (real_of_int (REFERENCE_RSSI - r) / 20)))"
  by (simp add: true_div_def PATH_LOSS_EXPONENT_def)

lemma path_loss_feet_paths:
  "path_loss_feet libm_pow r =
     (let e = round_double (real_of_int (REFERENCE_RSSI - r) / 20);
          p = (if e = 0 then 1 else libm_pow 10 e)
      in if float_overflows (real_of_int (REFERENCE_RSSI - r) / 20) then Inl OverflowError
         else if float_overflows p then Inl OverflowError
         else Inr (py_round (float_mul p (round_double (328084 / 100000))) 2))"
  by (simp add: path_loss_feet_def true_div_exponent float_pow_value Let_def)

lemma exponent_in_range:
  assumes "- 6215 \<le> r" "r \<le> 100"
  shows "\<not> float_overflows (real_of_int (REFERENCE_RSSI - r) / 20)"
proof -
  have "\<bar>real_of_int (REFERENCE_RSSI - r) / 20\<bar> \<le> 1000"
    using assms by (simp add: REFERENCE_RSSI_def abs_le_iff)
  then show ?thesis using DBL_OVF_big by (simp add: float_overflows_def)
qed

lemma exponent_upper:
  assumes "R \<le> r" "R \<le> - 51" "- 10000 \<le> R"
  shows "round_double (real_of_int (REFERENCE_RSSI - r) / 20)
       \<le> real_of_int (REFERENCE_RSSI - R) / 20 + 1 / 4096"
  using assms by (intro round_double_upper) (simp_all add: REFERENCE_RSSI_def)

lemma exponent_lower:
  assumes "r \<le> R" "R \<le> - 51" "- 10000 \<le> R"
  shows "real_of_int (REFERENCE_RSSI - R) / 20 - 1 / 4096
       \<le> round_double (real_of_int (REFERENCE_RSSI - r) / 20)"
  using assms by (intro round_double_lower) (simp_all add: REFERENCE_RSSI_def)

lemma power_in_range:
  assumes "libm_accurate libm_pow" "- 6215 \<le> r"
  shows "\<not> float_overflows
    (if round_double (real_of_int (REFERENCE_RSSI - r) / 20) = 0 then 1
     else libm_pow 10 (round_double (real_of_int (REFERENCE_RSSI - r) / 20)))"
proof -
  let ?e = "round_double (real_of_int (REFERENCE_RSSI - r) / 20)"
  have "?e \<le> real_of_int (REFERENCE_RSSI - (- 6215)) / 20 + 1 / 4096"
    using assms(2) by (intro exponent_upper) simp_all
  then have "?e \<le> 1233 / 4 + 1 / 4096" by (simp add: REFERENCE_RSSI_def)
  then have "(if ?e = 0 then 1 else libm_pow 10 ?e) < DBL_OVF"
    using assms(1) by (intro power_finite)
  moreover have "0 \<le> (if ?e = 0 then 1 else libm_pow 10 ?e)"
    using assms(1) by (rule libm_pow_nonneg)
  ultimately show ?thesis unfolding float_overflows_def by linarith
qed

lemma power_out_of_range:
  assumes "libm_accurate libm_pow" "r < - 6215"
  shows "float_overflows
    (if round_double (real_of_int (REFERENCE_RSSI - r) / 20) = 0 then 1
     else libm_pow 10 (round_double (real_of_int (REFERENCE_RSSI - r) / 20)))"
proof -
  let ?e = "round_double (real_of_int (REFERENCE_RSSI - r) / 20)"
  have "real_of_int (REFERENCE_RSSI - (- 6216)) / 20 - 1 / 4096 \<le> ?e"
    using assms(2) by (intro exponent_lower) simp_all
  then have "3083 / 10 - 1 / 4096 \<le> ?e" by (simp add: REFERENCE_RSSI_def)
  then have "DBL_OVF < (if ?e = 0 then 1 else libm_pow 10 ?e)"
    using assms(1) by (intro power_overflows)
  then show ?thesis unfolding float_overflows_def by linarith
qed

lemma path_loss_feet_overflow:
  assumes "libm_accurate libm_pow" "r < - 6215"
  shows "path_loss_feet libm_pow r = Inl OverflowError"
  using power_out_of_range [OF assms]
  unfolding path_loss_feet_paths Let_def by (simp only: if_True if_cancel)

lemma path_loss_feet_normal:
  assumes "libm_accurate libm_pow" "- 6215 \<le> r"
    "\<not> float_overflows (real_of_int (REFERENCE_RSSI - r) / 20)"
  shows "path_loss_feet libm_pow r =
     Inr (py_round (float_mul
       (if round_double (real_of_int (REFERENCE_RSSI - r) / 20) = 0 then 1
        else libm_pow 10 (round_double (real_of_int (REFERENCE_RSSI - r) / 20)))
       (round_double (328084 / 100000))) 2)"
  using power_in_range [OF assms(1,2)] assms(3)
  unfolding path_loss_feet_paths Let_def by (simp only: if_False)

lemma path_loss_feet_infinite:
  assumes "libm_accurate libm_pow" "- 6215 \<le> r" "r \<le> - 6205"
  shows "path_loss_feet libm_pow r = Inr PInf"
proof -
  let ?e = "round_double (real_of_int (REFERENCE_RSSI - r) / 20)"
  have n: "\<not> float_overflows (real_of_int (REFERENCE_RSSI - r) / 20)"
    using assms by (intro exponent_in_range) simp_all
  have "real_of_int (REFERENCE_RSSI - (- 6205)) / 20 - 1 / 4096 \<le> ?e"
    using assms(3) by (intro exponent_lower) simp_all
  then have "1231 / 4 - 1 / 4096 \<le> ?e" by (simp add: REFERENCE_RSSI_def)
  then have "DBL_OVF < (if ?e = 0 then 1 else libm_pow 10 ?e) * round_double (328084 / 100000)"
    using assms(1) by (intro product_infinite)
  then have "float_mul (if ?e = 0 then 1 else libm_pow 10 ?e) (round_double (328084 / 100000))
      = PInf"
    by (simp add: float_mul_def)
  then show ?thesis
    by (simp add: path_loss_feet_normal [OF assms(1,2) n])
qed

lemma path_loss_feet_finite:
  assumes "libm_accurate libm_pow" "- 6204 \<le> r"
    "\<not> float_overflows (real_of_int (REFERENCE_RSSI - r) / 20)"
  shows "\<exists>d. 0 \<le> d \<and> path_loss_feet libm_pow r = Inr (Fin d)"
proof -
  let ?e = "round_double (real_of_int (REFERENCE_RSSI - r) / 20)"
  let ?p = "if ?e = 0 then 1 else libm_pow 10 ?e"
  have r: "- 6215 \<le> r" using assms(2) by simp
  have "?e \<le> real_of_int (REFERENCE_RSSI - (- 6204)) / 20 + 1 / 4096"
    using assms(2) by (intro exponent_upper) simp_all
  then have "?e \<le> 3077 / 10 + 1 / 4096" by (simp add: REFERENCE_RSSI_def)
  then have "?p * round_double (328084 / 100000) < DBL_OVF"
    using assms(1) by (intro product_finite)
  moreover have p: "0 \<le> ?p" using assms(1) by (rule libm_pow_nonneg)
  ultimately have "float_mul ?p (round_double (328084 / 100000))
      = Fin (round_double (?p * round_double (328084 / 100000)))"
    using feet_per_meter_nonneg by (simp add: float_mul_pos del: if_distrib)
  then have "path_loss_feet libm_pow r =
      Inr (Fin (of_int (round_half_even
        (round_double (?p * round_double (328084 / 100000)) * 10 ^ 2)) / 10 ^ 2))"
    by (simp only: path_loss_feet_normal [OF assms(1) r assms(3)] py_round.simps)
  moreover have "0 \<le> real_of_int (round_half_even
        (round_double (?p * round_double (328084 / 100000)) * 10 ^ 2)) / 10 ^ 2"
    using p feet_per_meter_nonneg
    by (intro divide_nonneg_nonneg) (simp_all add: round_half_even_nonneg round_double_nonneg)
  ultimately show ?thesis by blast
qed

lemma path_loss_feet_raises:
  "float_overflows (real_of_int (REFERENCE_RSSI - r) / 20)
     \<Longrightarrow> path_loss_feet libm_pow r = Inl OverflowError"
  unfolding path_loss_feet_paths Let_def by (simp only: if_True)

lemma path_loss_feet_cases [case_names overflow infinite too_large finite]:
  assumes "libm_accurate libm_pow"
  obtains
    "r < - 6215" "path_loss_feet libm_pow r = Inl OverflowError"
  | "- 6215 \<le> r" "r \<le> - 6205" "path_loss_feet libm_pow r = Inr PInf"
  | "- 6204 \<le> r" "path_loss_feet libm_pow r = Inl OverflowError"
  | d where "- 6204 \<le> r" "0 \<le> d" "path_loss_feet libm_pow r = Inr (Fin d)"
proof (cases "r < - 6215")
  case True
  then show ?thesis using that(1) path_loss_feet_overflow [OF assms] by simp
next
  case False
  show ?thesis
  proof (cases "r \<le> - 6205")
    case True
    then show ?thesis using False that(2) path_loss_feet_infinite [OF assms] by simp
  next
    case high: False
    show ?thesis
    proof (cases "float_overflows (real_of_int (REFERENCE_RSSI - r) / 20)")
      case True
      then show ?thesis using high that(3) path_loss_feet_raises by simp
    next
      case False
      then obtain d where "0 \<le> d" "path_loss_feet libm_pow r = Inr (Fin d)"
        using path_loss_feet_finite [OF assms, of r] high by auto
      then show ?thesis using high that(4) by simp
    qed
  qed
qed

lemma one_meter_in_feet:
  "py_round (float_mul 1 (round_double (328084 / 100000))) 2 = Fin (328 / 100)"
proof -
  have d: "\<bar>round_double (round_double (328084 / 100000)) - round_double (328084 / 100000)\<bar>
      \<le> 1 / 2 ^ 44"
    using feet_per_meter_bounds by (intro round_double_near) simp_all
  have "(1::real) / 2 ^ 44 \<le> 1 / 100000" by simp
  then have "32807 / 10000 \<le> round_double (round_double (328084 / 100000))"
    "round_double (round_double (328084 / 100000)) \<le> 3281 / 1000"
    using d feet_per_meter_bounds by linarith+
  then have "real_of_int 328 \<le> round_double (round_double (328084 / 100000)) * 100"
    "round_double (round_double (328084 / 100000)) * 100 < real_of_int 328 + 1 / 2"
    by simp_all
  then have "round_half_even (round_double (round_double (328084 / 100000)) * 100) = 328"
    by (rule round_half_even_eq)
  moreover have "\<not> DBL_OVF \<le> round_double (328084 / 100000)"
    using feet_per_meter_bounds(2) DBL_OVF_big by linarith
  ultimately show ?thesis
    using feet_per_meter_nonneg by (simp add: float_mul_pos)
qed

lemma path_loss_feet_at_reference:
  "path_loss_feet libm_pow (- 50) = Inr (Fin (328 / 100))"
proof -
  have "\<not> float_overflows 0" "\<not> float_overflows 1"
    using DBL_OVF_big by (simp_all add: float_overflows_def)
  then show ?thesis
    using one_meter_in_feet
    by (simp add: path_loss_feet_paths REFERENCE_RSSI_def round_double_zero)
qed

lemma calculate_distance_at_reference:
  "calculate_distance libm_pow (- 50) = Fin (328 / 100)"
  by (simp add: calculate_distance_def normalize_rssi_def path_loss_feet_at_reference)

lemma calculate_distance_below_range:
  "libm_accurate libm_pow \<Longrightarrow> r < - 6215 \<Longrightarrow> calculate_distance libm_pow r = Fin 0"
  by (simp add: calculate_distance_def normalize_rssi_def path_loss_feet_overflow)

lemma power_antitone:
  assumes "libm_accurate libm_pow" "a < b" "b \<le> - 50" "- 6215 \<le> a"
  shows "(if round_double (real_of_int (REFERENCE_RSSI - b) / 20) = 0 then 1
          else libm_pow 10 (round_double (real_of_int (REFERENCE_RSSI - b) / 20)))
       \<le> (if round_double (real_of_int (REFERENCE_RSSI - a) / 20) = 0 then 1
          else libm_pow 10 (round_double (real_of_int (REFERENCE_RSSI - a) / 20)))"
proof -
  let ?xa = "real_of_int (REFERENCE_RSSI - a) / 20" and ?xb = "real_of_int (REFERENCE_RSSI - b) / 20"
  let ?ea = "round_double ?xa" and ?eb = "round_double ?xb"
  have "b = - 50 \<or> b \<le> - 51" using assms(3) by linarith
  then have xb: "0 \<le> ?xb" "?xb = 0 \<or> 1 / 100 \<le> ?xb" "?xb \<le> 512"
    using assms by (auto simp: REFERENCE_RSSI_def)
  have "a + 1 \<le> b" using assms(2) by simp
  then have "real_of_int (a + 1) \<le> real_of_int b" by (simp only: of_int_le_iff)
  then have step: "real_of_int a + 1 \<le> real_of_int b" by simp
  have "real_of_int b \<le> real_of_int (- 50)" "real_of_int (- 6215) \<le> real_of_int a"
    using assms(3,4) by (simp_all only: of_int_le_iff)
  then have bounds: "real_of_int b \<le> - 50" "- 6215 \<le> real_of_int a" by simp_all
  have diff: "real_of_int (REFERENCE_RSSI - a) = - 50 - real_of_int a"
    "real_of_int (REFERENCE_RSSI - b) = - 50 - real_of_int b"
    by (simp_all add: REFERENCE_RSSI_def)
  have xa: "1 / 100 \<le> ?xa" "?xa \<le> 512" "?xb + 1 / 20 \<le> ?xa"
    unfolding diff using step bounds by (simp_all add: field_simps)
  have eb: "?eb \<le> ?xb + 1 / 4096" "0 \<le> ?eb"
    using xb by (auto intro!: round_double_upper round_double_nonneg)
  have ea: "?xa - 1 / 4096 \<le> ?ea"
    using xa by (intro round_double_lower) simp_all
  have gap: "?eb + 1 / 25 \<le> ?ea" using ea eb(1) xa(3) by linarith
  have "(if ?eb = 0 then 1 else libm_pow 10 ?eb) \<le> 10 powr ?eb * (1 + 1 / 2 ^ 50)"
    using assms(1) eb(2) by (intro libm_pow_upper) simp_all
  also have "\<dots> \<le> 10 powr ?eb * (109 / 100 * (1 - 1 / 2 ^ 50))"
    by (intro mult_left_mono) simp_all
  also have "\<dots> = 10 powr ?eb * (109 / 100) * (1 - 1 / 2 ^ 50)"
    by simp
  also have "\<dots> \<le> 10 powr ?ea * (1 - 1 / 2 ^ 50)"
  proof (rule mult_right_mono)
    have "10 powr ?eb * (109 / 100) \<le> 10 powr ?eb * 10 powr (1 / 25)"
      using root_twenty_fifth by (intro mult_left_mono) simp_all
    also have "\<dots> = 10 powr (?eb + 1 / 25)" by (simp only: powr_add)
    also have "\<dots> \<le> 10 powr ?ea" using gap by (intro powr_mono) simp_all
    finally show "10 powr ?eb * (109 / 100) \<le> 10 powr ?ea" .
  qed simp
  also have "\<dots> \<le> (if ?ea = 0 then 1 else libm_pow 10 ?ea)"
    using assms(1) eb(2) gap by (intro libm_pow_lower) simp_all
  finally show ?thesis .
qed

lemma calculate_distance_antitone_aux:
  assumes "libm_accurate libm_pow" "- 6215 \<le> a" "a \<le> b" "b \<le> - 50"
  shows "float_le (calculate_distance libm_pow b) (calculate_distance libm_pow a)"
proof (cases "a = b")
  case True
  then show ?thesis by (simp add: float_le_refl)
next
  case False
  then have lt: "a < b" using assms(3) by simp
  let ?pa = "if round_double (real_of_int (REFERENCE_RSSI - a) / 20) = 0 then 1
          else libm_pow 10 (round_double (real_of_int (REFERENCE_RSSI - a) / 20))"
  let ?pb = "if round_double (real_of_int (REFERENCE_RSSI - b) / 20) = 0 then 1
          else libm_pow 10 (round_double (real_of_int (REFERENCE_RSSI - b) / 20))"
  have b: "- 6215 \<le> b" using assms by simp
  have na: "\<not> float_overflows (real_of_int (REFERENCE_RSSI - a) / 20)"
    using assms by (intro exponent_in_range) simp_all
  have nb: "\<not> float_overflows (real_of_int (REFERENCE_RSSI - b) / 20)"
    using assms b by (intro exponent_in_range) simp_all
  have "?pb \<le> ?pa" using assms(1) lt assms(4,2) by (rule power_antitone)
  moreover have "0 \<le> ?pa" using assms(1) by (rule libm_pow_nonneg)
  ultimately have "float_le
      (py_round (float_mul ?pb (round_double (328084 / 100000))) 2)
      (py_round (float_mul ?pa (round_double (328084 / 100000))) 2)"
    using feet_per_meter_nonneg by (intro py_round_mono float_mul_mono)
  moreover have "normalize_rssi a = a" "normalize_rssi b = b"
    using assms by (simp_all add: normalize_rssi_def)
  ultimately show ?thesis
    by (simp only: calculate_distance_def path_loss_feet_normal [OF assms(1,2) na]
        path_loss_feet_normal [OF assms(1) b nb] sum.case)
qed

text \<open>
  Claim C1, as amended. Let \<open>pow\<close> of the C library be accurate in the sense of
  \<open>libm_accurate\<close>. For integers \<open>a \<le> b\<close> between \<open>-6215\<close> and \<open>-50\<close> the weaker signal
  \<open>a\<close> never gets the smaller estimate, with every rounding of the float computation
  and the rounding to 2 places included, and no estimate on this range is below the
  one at \<open>-50\<close>. The comparison is the order of floats: from \<open>-6205\<close> down the product
  with 3.28084 is already infinite. Below \<open>-6215\<close> the power itself overflows, the
  exception is caught and the estimate is 0 (\<open>calculate_distance_below_range\<close>).
\<close>

theorem calculate_distance_antitone:
  assumes "libm_accurate libm_pow" "- 6215 \<le> a" "a \<le> b" "b \<le> - 50"
  shows "float_le (calculate_distance libm_pow (- 50)) (calculate_distance libm_pow b)
       \<and> float_le (calculate_distance libm_pow b) (calculate_distance libm_pow a)"
proof
  have "- 6215 \<le> b" using assms by simp
  then show "float_le (calculate_distance libm_pow (- 50)) (calculate_distance libm_pow b)"
    using assms(1,4) by (intro calculate_distance_antitone_aux) simp_all
  show "float_le (calculate_distance libm_pow b) (calculate_distance libm_pow a)"
    using assms by (intro calculate_distance_antitone_aux) simp_all
qed

text \<open>
  The theorem at \<open>a = -60\<close>, \<open>b = -55\<close>, for a correctly rounded \<open>pow\<close>.
\<close>

theorem calculate_distance_antitone_witness:
  "float_le (calculate_distance correctly_rounded_pow (- 50))
     (calculate_distance correctly_rounded_pow (- 55))
   \<and> float_le (calculate_distance correctly_rounded_pow (- 55))
     (calculate_distance correctly_rounded_pow (- 60))"
  using calculate_distance_antitone [OF correctly_rounded_pow_accurate, of "- 60" "- 55"]
  by simp

text \<open>
  C1 as stated fails: at \<open>-7000\<close> the power overflows, \<open>calculate_distance\<close> returns 0,
  and that is less than the 3.28 it returns at \<open>-50\<close>.
\<close>

theorem calculate_distance_antitone_counterexample:
  "\<not> float_le (calculate_distance correctly_rounded_pow (- 50))
       (calculate_distance correctly_rounded_pow (- 7000))"
  by (simp add: calculate_distance_at_reference
      calculate_distance_below_range [OF correctly_rounded_pow_accurate])

text \<open>
  Claim C2. At the reference RSSI the quotient of the exponent is the float 0, Python
  returns exactly 1 for the power (one meter) without calling the C library, and 1 times
  the double next to 3.28084, rounded to 2 places, is 3.28: that is what
  \<open>calculate_distance\<close> returns, whatever \<open>pow\<close> of the C library computes elsewhere.
\<close>

theorem calculate_distance_reference:
  "calculate_distance libm_pow REFERENCE_RSSI = Fin (328 / 100)
   \<and> true_div (REFERENCE_RSSI - REFERENCE_RSSI) (10 * PATH_LOSS_EXPONENT) = Inr 0
   \<and> float_pow libm_pow 10 0 = Inr 1
   \<and> py_round (float_mul 1 (round_double (328084 / 100000))) 2 = Fin (328 / 100)"
proof (intro conjI)
  show "calculate_distance libm_pow REFERENCE_RSSI = Fin (328 / 100)"
    using calculate_distance_at_reference by (simp add: REFERENCE_RSSI_def)
  have "\<not> float_overflows 0" using DBL_OVF_big by (simp add: float_overflows_def)
  then show "true_div (REFERENCE_RSSI - REFERENCE_RSSI) (10 * PATH_LOSS_EXPONENT) = Inr 0"
    by (simp add: true_div_def PATH_LOSS_EXPONENT_def round_double_zero)
  show "float_pow libm_pow 10 0 = Inr 1"
    by (simp add: float_pow_def)
  show "py_round (float_mul 1 (round_double (328084 / 100000))) 2 = Fin (328 / 100)"
    by (rule one_meter_in_feet)
qed

lemma calculate_distance_50: "calculate_distance libm_pow 50 = Fin (328 / 100)"
  using calculate_distance_at_reference [of libm_pow]
  by (simp add: calculate_distance_def normalize_rssi_def)

lemma round_double_small:
  assumes "0 \<le> x" "x \<le> 1 / 1000"
  shows "round_double x \<le> 2 / 1000"
proof -
  have n: "2 powr (- 1022) \<le> \<bar>1 / 1000 :: real\<bar>"
  proof -
    have "2 powr (- 1022) \<le> 2 powr (- 10 :: real)" by (intro powr_mono) simp_all
    also have "\<dots> = 1 / 2 ^ 10" by (simp add: powr_minus powr_realpow [symmetric] divide_simps)
    also have "\<dots> \<le> \<bar>1 / 1000 :: real\<bar>" by simp
    finally show ?thesis .
  qed
  have "round_double x \<le> round_double (1 / 1000)"
    using assms by (intro round_double_mono) simp_all
  moreover have "\<bar>round_double (1 / 1000) - 1 / 1000\<bar> \<le> \<bar>1 / 1000 :: real\<bar> / 2 ^ 53"
    using n by (rule round_double_rel_error)
  moreover have "\<bar>1 / 1000 :: real\<bar> / 2 ^ 53 \<le> 1 / 1000" by simp
  ultimately show ?thesis by linarith
qed

lemma calculate_distance_150:
  assumes "libm_accurate libm_pow"
  shows "calculate_distance libm_pow 150 = Fin 0"
proof -
  let ?e = "round_double (real_of_int (REFERENCE_RSSI - 50) / 20)"
  let ?p = "if ?e = 0 then 1 else libm_pow 10 ?e"
  have x: "real_of_int (REFERENCE_RSSI - 50) / 20 = - 5" by (simp add: REFERENCE_RSSI_def)
  have "2 powr (- 1022) \<le> \<bar>- 5 :: real\<bar>" using least_normal_le_one by simp
  then have "\<bar>round_double (- 5) - (- 5)\<bar> \<le> \<bar>- 5 :: real\<bar> / 2 ^ 53"
    by (rule round_double_rel_error)
  moreover have "\<bar>- 5 :: real\<bar> / 2 ^ 53 \<le> 1" by simp
  ultimately have e: "- 6 \<le> ?e" "?e \<le> - 4" unfolding x by linarith+
  then have e0: "?e \<noteq> 0" by simp
  have p0: "0 \<le> ?p" using assms by (rule libm_pow_nonneg)
  have pu: "?p \<le> 2 / 10 ^ 4"
  proof (cases "2 powr (- 1022) \<le> (10::real) powr ?e")
    case True
    then have "\<bar>libm_pow 10 ?e - 10 powr ?e\<bar> \<le> 10 powr ?e / 2 ^ 50"
      using assms by (simp add: libm_accurate_def)
    moreover have "(10::real) powr ?e / 2 ^ 50 \<le> 10 powr ?e" by (simp add: divide_le_eq)
    moreover have "(10::real) powr ?e \<le> 10 powr (- 4)" using e(2) by (intro powr_mono) simp_all
    moreover have "(10::real) powr (- 4) = 1 / 10 ^ 4"
      by (simp add: powr_minus powr_realpow [symmetric] divide_simps)
    ultimately have "libm_pow 10 ?e \<le> 2 / 10 ^ 4" by linarith
    then show ?thesis using e0 by (simp only: if_False)
  next
    case False
    then have "libm_pow 10 ?e \<le> 2 powr (- 1021)"
      using assms by (simp add: libm_accurate_def)
    also have "\<dots> \<le> 2 powr (- 14 :: real)" by (intro powr_mono) simp_all
    also have "\<dots> = 1 / 2 ^ 14" by (simp add: powr_minus powr_realpow [symmetric] divide_simps)
    also have "\<dots> \<le> (2 / 10 ^ 4 :: real)" by simp
    finally show ?thesis using e0 by (simp only: if_False)
  qed
  have prod: "0 \<le> ?p * round_double (328084 / 100000)"
    "?p * round_double (328084 / 100000) \<le> 1 / 1000"
  proof -
    show "0 \<le> ?p * round_double (328084 / 100000)"
      using p0 feet_per_meter_nonneg by (rule mult_nonneg_nonneg)
    have "?p * round_double (328084 / 100000) \<le> 2 / 10 ^ 4 * (32809 / 10000)"
      using pu p0 feet_per_meter_bounds(2) feet_per_meter_nonneg by (intro mult_mono) simp_all
    also have "\<dots> \<le> (1 / 1000 :: real)" by simp
    finally show "?p * round_double (328084 / 100000) \<le> 1 / 1000" .
  qed
  have no: "\<not> float_overflows (real_of_int (REFERENCE_RSSI - 50) / 20)" "\<not> float_overflows ?p"
  proof -
    show "\<not> float_overflows (real_of_int (REFERENCE_RSSI - 50) / 20)"
      using DBL_OVF_big unfolding x float_overflows_def by simp
    have "\<bar>?p\<bar> \<le> 2 / 10 ^ 4" using p0 pu by linarith
    moreover have "(2 / 10 ^ 4 :: real) < 1000" by simp
    ultimately show "\<not> float_overflows ?p"
      using DBL_OVF_big unfolding float_overflows_def by linarith
  qed
  have fin: "float_mul ?p (round_double (328084 / 100000))
      = Fin (round_double (?p * round_double (328084 / 100000)))"
  proof -
    have "\<not> DBL_OVF \<le> ?p * round_double (328084 / 100000)"
      "\<not> ?p * round_double (328084 / 100000) \<le> - DBL_OVF"
      using prod DBL_OVF_big by linarith+
    then show ?thesis unfolding float_mul_def by (simp only: if_False)
  qed
  have r: "0 \<le> round_double (?p * round_double (328084 / 100000))"
    "round_double (?p * round_double (328084 / 100000)) \<le> 2 / 1000"
  proof -
    show "0 \<le> round_double (?p * round_double (328084 / 100000))"
      using prod(1) by (rule round_double_nonneg)
    show "round_double (?p * round_double (328084 / 100000)) \<le> 2 / 1000"
      using prod by (rule round_double_small)
  qed
  then have "real_of_int 0 \<le> round_double (?p * round_double (328084 / 100000)) * 100"
    "round_double (?p * round_double (328084 / 100000)) * 100 < real_of_int 0 + 1 / 2"
    by simp_all
  then have "round_half_even (round_double (?p * round_double (328084 / 100000)) * 100) = 0"
    by (rule round_half_even_eq)
  then have "py_round (float_mul ?p (round_double (328084 / 100000))) 2 = Fin 0"
    unfolding fin by simp
  then have "path_loss_feet libm_pow 50 = Inr (Fin 0)"
    using no unfolding path_loss_feet_paths Let_def by (simp only: if_False)
  then show ?thesis by (simp add: calculate_distance_def normalize_rssi_def)
qed

text \<open>
  C3 as stated fails above 100: \<open>calculate_distance 150\<close> applies the formula to 50
  and rounds to 0, while \<open>calculate_distance 50\<close> normalizes once more, to \<open>-50\<close>, and
  returns 3.28.
\<close>

theorem normalization_counterexample:
  "calculate_distance correctly_rounded_pow 150
     \<noteq> calculate_distance correctly_rounded_pow (150 - 100)"
  by (simp add: calculate_distance_150 [OF correctly_rounded_pow_accurate] calculate_distance_50)

text \<open>
  Claim C3, as amended. The normalization is applied once: for every \<open>s > 0\<close> the
  estimate is the formula at \<open>s - 100\<close>, which is \<open>calculate_distance (s - 100)\<close> as long
  as \<open>s \<le> 100\<close> (so \<open>calculate_distance 30 = calculate_distance (-70)\<close>); for \<open>t \<le> 0\<close>,
  zero included, the formula is applied to \<open>t\<close> itself.
\<close>

theorem normalization_once:
  "(0 < s \<and> s \<le> 100 \<longrightarrow>
      calculate_distance libm_pow s = calculate_distance libm_pow (s - 100))
   \<and> (0 < s \<longrightarrow> calculate_distance libm_pow s
        = (case path_loss_feet libm_pow (s - 100) of Inl e \<Rightarrow> Fin 0 | Inr d \<Rightarrow> d))
   \<and> (t \<le> 0 \<longrightarrow> calculate_distance libm_pow t
        = (case path_loss_feet libm_pow t of Inl e \<Rightarrow> Fin 0 | Inr d \<Rightarrow> d))"
  by (simp add: calculate_distance_def normalize_rssi_def)

text \<open>
  The theorem at \<open>s = 30\<close> and \<open>t = 0\<close>.
\<close>

theorem normalization_once_witness:
  "calculate_distance correctly_rounded_pow 30 = calculate_distance correctly_rounded_pow (- 70)
   \<and> calculate_distance correctly_rounded_pow 30
     = (case path_loss_feet correctly_rounded_pow (- 70) of Inl e \<Rightarrow> Fin 0 | Inr d \<Rightarrow> d)
   \<and> calculate_distance correctly_rounded_pow 0
     = (case path_loss_feet correctly_rounded_pow 0 of Inl e \<Rightarrow> Fin 0 | Inr d \<Rightarrow> d)"
proof -
  note w = normalization_once [of 30 correctly_rounded_pow 0]
  have "calculate_distance correctly_rounded_pow 30
      = calculate_distance correctly_rounded_pow (- 70)"
    using w [THEN conjunct1] by simp
  moreover have "calculate_distance correctly_rounded_pow 30
      = (case path_loss_feet correctly_rounded_pow (- 70) of Inl e \<Rightarrow> Fin 0 | Inr d \<Rightarrow> d)"
    using w [THEN conjunct2, THEN conjunct1] by simp
  moreover have "calculate_distance correctly_rounded_pow 0
      = (case path_loss_feet correctly_rounded_pow 0 of Inl e \<Rightarrow> Fin 0 | Inr d \<Rightarrow> d)"
    using w [THEN conjunct2, THEN conjunct2] by simp
  ultimately show ?thesis by blast
qed

text \<open>
  C4 as stated fails: at \<open>-6210\<close> the power is about \<open>10^308\<close>, a finite float, its
  product with 3.28084 is beyond the double range, and the multiplication does not
  raise. The result is the float infinity, which is no real number and not the rounded
  value of the formula.
\<close>

theorem calculate_distance_infinite_counterexample:
  "calculate_distance correctly_rounded_pow (- 6210) = PInf"
  by (simp add: calculate_distance_def normalize_rssi_def
      path_loss_feet_infinite [OF correctly_rounded_pow_accurate])

text \<open>
  Claim C4, as amended. \<open>calculate_distance\<close> is a total function: every exception of
  its body is caught. Let \<open>pow\<close> of the C library be accurate in the sense of
  \<open>libm_accurate\<close>. For every integer \<open>s\<close> the result is a float that is at least 0; it
  is the float infinity exactly when the normalized input lies between \<open>-6215\<close> and
  \<open>-6205\<close>, and a real number otherwise. When the division or the power raises, as the
  power does for every normalized input below \<open>-6215\<close>, the result is 0; when they do
  not, it is the float product of the power, as a double, and the double next to
  3.28084, rounded to 2 places.
\<close>

theorem calculate_distance_total:
  assumes "libm_accurate libm_pow"
  shows "float_le (Fin 0) (calculate_distance libm_pow s)
   \<and> calculate_distance libm_pow s \<noteq> NInf
   \<and> (calculate_distance libm_pow s = PInf
        \<longleftrightarrow> - 6215 \<le> normalize_rssi s \<and> normalize_rssi s \<le> - 6205)
   \<and> (normalize_rssi s < - 6215 \<longrightarrow> calculate_distance libm_pow s = Fin 0)
   \<and> (path_loss_feet libm_pow (normalize_rssi u) = Inl e \<longrightarrow>
        calculate_distance libm_pow u = Fin 0)
   \<and> (path_loss_feet libm_pow (normalize_rssi v) = Inr d \<longrightarrow>
        calculate_distance libm_pow v = d
        \<and> d = py_round (float_mul
              (if round_double (real_of_int (REFERENCE_RSSI - normalize_rssi v) / 20) = 0 then 1
               else libm_pow 10
                 (round_double (real_of_int (REFERENCE_RSSI - normalize_rssi v) / 20)))
              (round_double (328084 / 100000))) 2)"
proof (intro conjI impI)
  show "float_le (Fin 0) (calculate_distance libm_pow s)"
    by (cases "normalize_rssi s" rule: path_loss_feet_cases [OF assms])
       (simp_all add: calculate_distance_def)
  show "calculate_distance libm_pow s \<noteq> NInf"
    by (cases "normalize_rssi s" rule: path_loss_feet_cases [OF assms])
       (simp_all add: calculate_distance_def)
  show "calculate_distance libm_pow s = PInf
      \<longleftrightarrow> - 6215 \<le> normalize_rssi s \<and> normalize_rssi s \<le> - 6205"
    by (cases "normalize_rssi s" rule: path_loss_feet_cases [OF assms])
       (simp_all add: calculate_distance_def)
  show "calculate_distance libm_pow s = Fin 0" if "normalize_rssi s < - 6215"
    using path_loss_feet_overflow [OF assms that] by (simp add: calculate_distance_def)
  show "calculate_distance libm_pow u = Fin 0"
    if "path_loss_feet libm_pow (normalize_rssi u) = Inl e"
    using that by (simp add: calculate_distance_def)
  show "calculate_distance libm_pow v = d"
    if "path_loss_feet libm_pow (normalize_rssi v) = Inr d"
    using that by (simp add: calculate_distance_def)
  show "d = py_round (float_mul
              (if round_double (real_of_int (REFERENCE_RSSI - normalize_rssi v) / 20) = 0 then 1
               else libm_pow 10
                 (round_double (real_of_int (REFERENCE_RSSI - normalize_rssi v) / 20)))
              (round_double (328084 / 100000))) 2"
    if "path_loss_feet libm_pow (normalize_rssi v) = Inr d"
    using that unfolding path_loss_feet_paths Let_def
    by (simp split: if_splits)
qed

text \<open>
  The theorem for a correctly rounded \<open>pow\<close>, at \<open>s = -6205\<close>, at \<open>u = -7000\<close> where the
  power raises, and at \<open>v = -50\<close> where nothing does.
\<close>

theorem calculate_distance_total_witness:
  "float_le (Fin 0) (calculate_distance correctly_rounded_pow (- 6205))
   \<and> calculate_distance correctly_rounded_pow (- 6205) = PInf
   \<and> calculate_distance correctly_rounded_pow (- 7000) = Fin 0
   \<and> calculate_distance correctly_rounded_pow (- 50) = Fin (328 / 100)"
proof -
  have raised: "path_loss_feet correctly_rounded_pow (normalize_rssi (- 7000)) = Inl OverflowError"
    by (simp add: normalize_rssi_def path_loss_feet_overflow [OF correctly_rounded_pow_accurate])
  have returned:
    "path_loss_feet correctly_rounded_pow (normalize_rssi (- 50)) = Inr (Fin (328 / 100))"
    by (simp add: normalize_rssi_def path_loss_feet_at_reference)
  note w = calculate_distance_total [OF correctly_rounded_pow_accurate,
      of "- 6205" "- 7000" OverflowError "- 50" "Fin (328 / 100)"]
  have "float_le (Fin 0) (calculate_distance correctly_rounded_pow (- 6205))"
    using w [THEN conjunct1] .
  moreover have "calculate_distance correctly_rounded_pow (- 6205) = PInf"
    using w [THEN conjunct2, THEN conjunct2, THEN conjunct1]
    by (simp add: normalize_rssi_def)
  moreover have "calculate_distance correctly_rounded_pow (- 7000) = Fin 0"
    using w [THEN conjunct2, THEN conjunct2, THEN conjunct2, THEN conjunct2, THEN conjunct1]
      raised by simp
  moreover have "calculate_distance correctly_rounded_pow (- 50) = Fin (328 / 100)"
    using w [THEN conjunct2, THEN conjunct2, THEN conjunct2, THEN conjunct2, THEN conjunct2]
      returned by simp
  ultimately show ?thesis by blast
qed

section \<open>Properties of the store, the export and the handlers\<close>

subsection \<open>Timestamps as text\<close>

lemma digit_char_less: "digit_char a < digit_char b \<longleftrightarrow> a mod 10 < b mod 10"
  by (simp add: digit_char_def less_char_def)

lemma digit_char_eq: "digit_char a = digit_char b \<longleftrightarrow> a mod 10 = b mod 10"
proof -
  have "of_char (digit_char a) = (48 + a mod 10 :: nat)" "of_char (digit_char b) = (48 + b mod 10 :: nat)"
    by (simp_all add: digit_char_def)
  then show ?thesis
    by (metis add_left_cancel digit_char_def)
qed

lemma less_by_tens:
  fixes qa ra qb rb :: nat
  assumes "ra < 10" "rb < 10"
  shows "10 * qa + ra < 10 * qb + rb \<longleftrightarrow> qa < qb \<or> qa = qb \<and> ra < rb"
  using assms by linarith

lemma pad2_less:
  assumes "a < 100" "b < 100"
  shows "pad2 a @ xs < pad2 b @ ys \<longleftrightarrow> a < b \<or> a = b \<and> xs < ys"
proof -
  have d: "a div 10 mod 10 = a div 10" "b div 10 mod 10 = b div 10" using assms by simp_all
  have a: "10 * (a div 10) + a mod 10 = a" and b: "10 * (b div 10) + b mod 10 = b"
    by simp_all
  have l: "a div 10 < b div 10 \<or> a div 10 = b div 10 \<and> a mod 10 < b mod 10 \<longleftrightarrow> a < b"
    using less_by_tens [of "a mod 10" "b mod 10" "a div 10" "b div 10"]
    by (simp only: a b)
  have e: "a div 10 = b div 10 \<and> a mod 10 = b mod 10 \<longleftrightarrow> a = b"
    using a b by metis
  have "pad2 a @ xs < pad2 b @ ys \<longleftrightarrow>
      (a div 10 < b div 10 \<or> a div 10 = b div 10 \<and> a mod 10 < b mod 10)
      \<or> (a div 10 = b div 10 \<and> a mod 10 = b mod 10) \<and> xs < ys"
    by (auto simp: pad2_def digit_char_less digit_char_eq d)
  then show ?thesis by (simp only: l e)
qed

lemma pad4_pad2: "pad4 n = pad2 (n div 100) @ pad2 (n mod 100)"
proof -
  have "n div 100 div 10 = n div 1000" by (simp add: div_mult2_eq)
  moreover have m: "n mod 100 = 10 * (n div 10 mod 10) + n mod 10"
    using mod_mult2_eq [of n 10 10] by simp
  moreover have "n mod 100 div 10 mod 10 = n div 10 mod 10" by (simp add: m)
  moreover have "n mod 100 mod 10 = n mod 10" by (simp add: m)
  ultimately show ?thesis by (simp add: pad4_def pad2_def digit_char_eq)
qed

lemma less_by_hundreds:
  fixes qa ra qb rb :: nat
  assumes "ra < 100" "rb < 100"
  shows "100 * qa + ra < 100 * qb + rb \<longleftrightarrow> qa < qb \<or> qa = qb \<and> ra < rb"
  using assms by linarith

lemma pad4_less:
  assumes "a < 10000" "b < 10000"
  shows "pad4 a @ xs < pad4 b @ ys \<longleftrightarrow> a < b \<or> a = b \<and> xs < ys"
proof -
  have d: "a div 100 < 100" "b div 100 < 100" using assms by simp_all
  have a: "100 * (a div 100) + a mod 100 = a" and b: "100 * (b div 100) + b mod 100 = b"
    by simp_all
  have l: "a div 100 < b div 100 \<or> a div 100 = b div 100 \<and> a mod 100 < b mod 100 \<longleftrightarrow> a < b"
    using less_by_hundreds [of "a mod 100" "b mod 100" "a div 100" "b div 100"]
    by (simp only: a b)
  have e: "a div 100 = b div 100 \<and> a mod 100 = b mod 100 \<longleftrightarrow> a = b"
    using a b by metis
  have "pad4 a @ xs < pad4 b @ ys \<longleftrightarrow>
      (a div 100 < b div 100 \<or> a div 100 = b div 100 \<and> a mod 100 < b mod 100)
      \<or> (a div 100 = b div 100 \<and> a mod 100 = b mod 100) \<and> xs < ys"
    using d by (auto simp: pad4_pad2 pad2_less)
  then show ?thesis by (simp only: l e)
qed

lemma lex_step:
  fixes x y :: nat
  shows "(x < y \<or> x \<le> y \<and> P) \<longleftrightarrow> (x < y \<or> x = y \<and> P)"
  by auto

lemma strftime_less:
  assumes "valid_datetime a" "valid_datetime b"
  shows "strftime a < strftime b \<longleftrightarrow> chronological a < chronological b"
proof -
  have "year a < 10000" "year b < 10000" "month a < 100" "month b < 100" "day a < 100" "day b < 100"
    "hour a < 100" "hour b < 100" "minute a < 100" "minute b < 100"
    "second a < 100" "second b < 100"
    using assms by (simp_all add: valid_datetime_def)
  then show ?thesis
    using pad2_less [of "second a" "second b" "[]" "[]"]
    by (simp add: strftime_def chronological_def pad4_less pad2_less lex_step)
qed

lemma strftime_le:
  assumes "valid_datetime a" "valid_datetime b"
  shows "strftime a \<le> strftime b \<longleftrightarrow> chronological a \<le> chronological b"
  using strftime_less [OF assms(2) assms(1)] by (simp flip: not_less)

lemma strftime_sample_clock:
  "strftime (sample_clock 0) = ''2024-01-01 00:00:00''"
  "strftime (sample_clock 1) = ''2024-01-01 00:00:01''"
  "strftime (sample_clock 2) = ''2024-01-01 00:00:02''"
  by code_simp+

subsection \<open>The log store\<close>

lemma mset_order_by_timestamp_desc: "mset (order_by_timestamp_desc rs) = mset rs"
  by (simp add: order_by_timestamp_desc_def)

lemma length_order_by_timestamp_desc: "length (order_by_timestamp_desc rs) = length rs"
  by (simp add: order_by_timestamp_desc_def)

lemma sorted_order_by_timestamp_desc:
  "sorted_wrt (\<lambda>a b. timestamp b \<le> timestamp a) (order_by_timestamp_desc rs)"
proof -
  have "sorted (map timestamp (sort_key timestamp (rev rs)))"
    by (rule sorted_sort_key)
  then have "sorted_wrt (\<lambda>a b. timestamp a \<le> timestamp b) (sort_key timestamp (rev rs))"
    by (simp add: sorted_wrt_map)
  then show ?thesis
    by (simp add: order_by_timestamp_desc_def sorted_wrt_rev)
qed

text \<open>
  C7 as stated fails for the empty filter string: \<open>if filter_ssid:\<close> takes it for no
  filter, and the query returns a reading whose name is not the filter.
\<close>

theorem fetch_logs_empty_filter_counterexample:
  "map ssid (fetch_logs (Some '''')
     \<lparr>rows = [\<lparr>row_id = 1, timestamp = ''2024-01-01 00:00:00'', ssid = ''HomeNet'',
                rssi = - 60, distance = Fin 10\<rparr>], seq = 1\<rparr>) = [''HomeNet'']"
  by (simp add: fetch_logs_def order_by_timestamp_desc_def)

text \<open>
  Claim C7, as amended. With a filter that is not the empty string, \<open>fetch_logs\<close>
  returns exactly the stored readings whose \<open>ssid\<close> equals the filter; with no filter,
  and with the empty string as filter, it returns all stored readings. In every case the
  result is in descending order of the timestamp text, and the texts \<open>log_to_database\<close>
  writes for two times with four-digit years are in the order of the times.
\<close>

theorem fetch_logs_filtered_sorted:
  "(f \<noteq> [] \<longrightarrow> mset (fetch_logs (Some f) db) = mset (filter (\<lambda>r. ssid r = f) (rows db)))
   \<and> mset (fetch_logs None db) = mset (rows db)
   \<and> mset (fetch_logs (Some []) db) = mset (rows db)
   \<and> sorted_wrt (\<lambda>a b. timestamp b \<le> timestamp a) (fetch_logs g db)
   \<and> (valid_datetime t \<and> valid_datetime u \<longrightarrow>
        (strftime t \<le> strftime u \<longleftrightarrow> chronological t \<le> chronological u))"
  by (simp add: fetch_logs_def mset_order_by_timestamp_desc sorted_order_by_timestamp_desc
      strftime_le)

text \<open>
  The theorem on the store three inserts leave, two of them of the network asked for,
  and for the times of the first and the last.
\<close>

theorem fetch_logs_filtered_sorted_witness:
  "mset (fetch_logs (Some ''HomeNet'')
     (projr (log_to_database (sample_clock 2) ''HomeNet'' (- 61) (Fin 11)
       (projr (log_to_database (sample_clock 1) ''Guest'' (- 70) (Fin 32)
         (projr (log_to_database (sample_clock 0) ''HomeNet'' (- 60) (Fin 10)
            empty_database)))))))
   = {#\<lparr>row_id = 1, timestamp = ''2024-01-01 00:00:00'', ssid = ''HomeNet'', rssi = - 60,
        distance = Fin 10\<rparr>,
      \<lparr>row_id = 3, timestamp = ''2024-01-01 00:00:02'', ssid = ''HomeNet'', rssi = - 61,
        distance = Fin 11\<rparr>#}
   \<and> sorted_wrt (\<lambda>a b. timestamp b \<le> timestamp a)
       (fetch_logs (Some ''HomeNet'')
         (projr (log_to_database (sample_clock 2) ''HomeNet'' (- 61) (Fin 11)
           (projr (log_to_database (sample_clock 1) ''Guest'' (- 70) (Fin 32)
             (projr (log_to_database (sample_clock 0) ''HomeNet'' (- 60) (Fin 10)
                empty_database)))))))
   \<and> strftime (sample_clock 0) \<le> strftime (sample_clock 2)"
proof -
  let ?db = "projr (log_to_database (sample_clock 2) ''HomeNet'' (- 61) (Fin 11)
       (projr (log_to_database (sample_clock 1) ''Guest'' (- 70) (Fin 32)
         (projr (log_to_database (sample_clock 0) ''HomeNet'' (- 60) (Fin 10)
            empty_database)))))"
  note w = fetch_logs_filtered_sorted
    [of "''HomeNet''" ?db "Some ''HomeNet''" "sample_clock 0" "sample_clock 2"]
  have "mset (fetch_logs (Some ''HomeNet'') ?db) =
      {#\<lparr>row_id = 1, timestamp = ''2024-01-01 00:00:00'', ssid = ''HomeNet'', rssi = - 60,
          distance = Fin 10\<rparr>,
        \<lparr>row_id = 3, timestamp = ''2024-01-01 00:00:02'', ssid = ''HomeNet'', rssi = - 61,
          distance = Fin 11\<rparr>#}"
    using w [THEN conjunct1]
    by (simp add: log_to_database_def fits_sqlite_integer_def empty_database_def
        strftime_sample_clock Let_def)
  moreover have "sorted_wrt (\<lambda>a b. timestamp b \<le> timestamp a)
      (fetch_logs (Some ''HomeNet'') ?db)"
    using w [THEN conjunct2, THEN conjunct2, THEN conjunct2, THEN conjunct1] .
  moreover have "strftime (sample_clock 0) \<le> strftime (sample_clock 2)"
    using w [THEN conjunct2, THEN conjunct2, THEN conjunct2, THEN conjunct2]
    by (simp add: valid_datetime_def chronological_def sample_clock_def)
  ultimately show ?thesis by (intro conjI)
qed

subsection \<open>The export adapter\<close>

text \<open>
  Claim C8. \<open>export_logs_to_csv\<close> writes the file \<open>wifi_signal_logs.csv\<close>: its first
  record is the header ID, Timestamp, SSID, RSSI (dBm), Distance (m); the records after
  it are the stored readings in the order of \<open>fetch_logs\<close> without a filter, each with
  its id, timestamp, SSID, RSSI and distance in the columns of the header; and so the
  file has one record more than there are stored readings.
\<close>

theorem export_logs_to_csv_rows:
  "fst (export_logs_to_csv db) = ''wifi_signal_logs.csv''
   \<and> snd (export_logs_to_csv db)
       = [CText ''ID'', CText ''Timestamp'', CText ''SSID'', CText ''RSSI (dBm)'',
          CText ''Distance (m)'']
         # map (\<lambda>r. [CInt (row_id r), CText (timestamp r), CText (ssid r), CInt (rssi r),
                      CFloat (distance r)])
             (fetch_logs None db)
   \<and> length (snd (export_logs_to_csv db)) = length (rows db) + 1"
  by (simp add: export_logs_to_csv_def csv_header_def row_fields_def fetch_logs_def
      length_order_by_timestamp_desc)

text \<open>
  The theorem on a store of two readings: the file has three records, the later reading
  first.
\<close>

theorem export_logs_to_csv_rows_witness:
  "export_logs_to_csv
     \<lparr>rows = [\<lparr>row_id = 1, timestamp = ''2024-01-01 00:00:00'', ssid = ''HomeNet'',
                rssi = - 60, distance = Fin (1037 / 100)\<rparr>,
              \<lparr>row_id = 2, timestamp = ''2024-01-01 00:00:01'', ssid = ''Cafe'',
                rssi = 30, distance = Fin (3281 / 100)\<rparr>], seq = 2\<rparr>
   = (''wifi_signal_logs.csv'',
      [[CText ''ID'', CText ''Timestamp'', CText ''SSID'', CText ''RSSI (dBm)'',
        CText ''Distance (m)''],
       [CInt 2, CText ''2024-01-01 00:00:01'', CText ''Cafe'', CInt 30,
        CFloat (Fin (3281 / 100))],
       [CInt 1, CText ''2024-01-01 00:00:00'', CText ''HomeNet'', CInt (- 60),
        CFloat (Fin (1037 / 100))]])"
proof -
  let ?db = "\<lparr>rows = [\<lparr>row_id = 1, timestamp = ''2024-01-01 00:00:00'', ssid = ''HomeNet'',
                rssi = - 60, distance = Fin (1037 / 100)\<rparr>,
              \<lparr>row_id = 2, timestamp = ''2024-01-01 00:00:01'', ssid = ''Cafe'',
                rssi = 30, distance = Fin (3281 / 100)\<rparr>], seq = 2\<rparr>"
  have "fetch_logs None ?db
      = [\<lparr>row_id = 2, timestamp = ''2024-01-01 00:00:01'', ssid = ''Cafe'',
           rssi = 30, distance = Fin (3281 / 100)\<rparr>,
         \<lparr>row_id = 1, timestamp = ''2024-01-01 00:00:00'', ssid = ''HomeNet'',
           rssi = - 60, distance = Fin (1037 / 100)\<rparr>]"
    by (simp add: fetch_logs_def order_by_timestamp_desc_def)
  then show ?thesis
    using export_logs_to_csv_rows [of ?db]
    by (simp add: prod_eq_iff)
qed

subsection \<open>The scan loop\<close>

lemma log_to_database_cases:
  "log_to_database t s r d db =
     (if fits_sqlite_integer r
      then Inr (db\<lparr>rows := rows db @
               [\<lparr>row_id = seq db + 1, timestamp = strftime t, ssid = s, rssi = r,
                 distance = d\<rparr>],
            seq := seq db + 1\<rparr>)
      else Inl OverflowError)"
  by (simp add: log_to_database_def Let_def)

lemma fits_above_threshold:
  "- 80 \<le> r \<Longrightarrow> fits_sqlite_integer r \<longleftrightarrow> r < 2 ^ 63"
  by (simp add: fits_sqlite_integer_def)

lemma scan_loop_rows:
  "\<exists>new. rows (snd (scan_loop libm_pow now ws db)) = rows db @ new
     \<and> map (\<lambda>r. (ssid r, rssi r, distance r)) new
       = map (\<lambda>(s, r). (s, r, calculate_distance libm_pow r))
           (takeWhile (\<lambda>(s, r). r < 2 ^ 63) (filter (\<lambda>(s, r). - 80 \<le> r) ws))
     \<and> fst (scan_loop libm_pow now ws db)
       = (if list_all (\<lambda>(s, r). r < 2 ^ 63) ws then None else Some OverflowError)"
proof (induction ws arbitrary: now db)
  case Nil
  then show ?case by simp
next
  case (Cons w ws)
  obtain s r where w: "w = (s, r)" by (cases w)
  show ?case
  proof (cases "r < - 80")
    case True
    then have "r < 2 ^ 63" by simp
    then show ?thesis using True Cons.IH [of now db] by (simp add: w)
  next
    case False
    then have fits: "fits_sqlite_integer r \<longleftrightarrow> r < 2 ^ 63"
      by (intro fits_above_threshold) simp
    show ?thesis
    proof (cases "r < 2 ^ 63")
      case small: True
      let ?row = "\<lparr>row_id = seq db + 1, timestamp = strftime (now 0), ssid = s, rssi = r,
            distance = calculate_distance libm_pow r\<rparr>"
      let ?db = "db\<lparr>rows := rows db @ [?row], seq := seq db + 1\<rparr>"
      have step: "scan_loop libm_pow now (w # ws) db = scan_loop libm_pow (now \<circ> Suc) ws ?db"
        using False small fits by (simp add: w log_to_database_cases)
      obtain new where new: "rows (snd (scan_loop libm_pow (now \<circ> Suc) ws ?db)) = rows ?db @ new"
        "map (\<lambda>r. (ssid r, rssi r, distance r)) new
         = map (\<lambda>(s, r). (s, r, calculate_distance libm_pow r))
             (takeWhile (\<lambda>(s, r). r < 2 ^ 63) (filter (\<lambda>(s, r). - 80 \<le> r) ws))"
        "fst (scan_loop libm_pow (now \<circ> Suc) ws ?db)
         = (if list_all (\<lambda>(s, r). r < 2 ^ 63) ws then None else Some OverflowError)"
        using Cons.IH [of "now \<circ> Suc" ?db] by blast
      have "rows (snd (scan_loop libm_pow now (w # ws) db)) = rows db @ (?row # new)"
        using new(1) unfolding step by simp
      moreover have "map (\<lambda>r. (ssid r, rssi r, distance r)) (?row # new)
          = map (\<lambda>(s, r). (s, r, calculate_distance libm_pow r))
              (takeWhile (\<lambda>(s, r). r < 2 ^ 63) (filter (\<lambda>(s, r). - 80 \<le> r) (w # ws)))"
        using False small new(2) by (simp add: w)
      moreover have "fst (scan_loop libm_pow now (w # ws) db)
          = (if list_all (\<lambda>(s, r). r < 2 ^ 63) (w # ws) then None else Some OverflowError)"
        using small new(3) unfolding step by (simp add: w)
      ultimately show ?thesis by blast
    next
      case large: False
      then have "scan_loop libm_pow now (w # ws) db = (Some OverflowError, db)"
        using False fits by (simp add: w log_to_database_cases)
      then show ?thesis using False large by (simp add: w)
    qed
  qed
qed

lemma scan_rows:
  "\<exists>new. rows (snd (scan libm_pow now result db)) = rows db @ new
     \<and> map (\<lambda>r. (ssid r, rssi r, distance r)) new
       = map (\<lambda>(s, r). (s, r, calculate_distance libm_pow r))
           (takeWhile (\<lambda>(s, r). r < 2 ^ 63)
              (filter (\<lambda>(s, r). - 80 \<le> r) (get_wifi_signal result)))
     \<and> fst (scan libm_pow now result db)
       = (if list_all (\<lambda>(s, r). r < 2 ^ 63) (get_wifi_signal result)
          then Inr ''Scan complete'' else Inl OverflowError)"
proof (cases "get_wifi_signal result = []")
  case True
  then show ?thesis by (simp add: scan_def)
next
  case False
  obtain st db' where l: "scan_loop libm_pow now (get_wifi_signal result) db = (st, db')"
    by (cases "scan_loop libm_pow now (get_wifi_signal result) db")
  have s: "scan libm_pow now result db
      = (case st of Some e \<Rightarrow> Inl e | None \<Rightarrow> Inr ''Scan complete'', db')"
    using False l by (simp add: scan_def split: option.splits)
  show ?thesis
    using scan_loop_rows [of libm_pow now "get_wifi_signal result" db]
    unfolding l s by (auto split: option.splits if_splits)
qed

lemma debug_loop_filter:
  "debug_loop libm_pow ws
     = map (\<lambda>(s, r). (s, r, calculate_distance libm_pow r)) (filter (\<lambda>(s, r). - 80 \<le> r) ws)"
  by (induction libm_pow ws rule: debug_loop.induct) simp_all

lemma scan_new_rows:
  "take (length (rows db)) (rows (snd (scan libm_pow now result db))) = rows db"
  "map (\<lambda>r. (ssid r, rssi r, distance r))
       (drop (length (rows db)) (rows (snd (scan libm_pow now result db))))
     = map (\<lambda>(s, r). (s, r, calculate_distance libm_pow r))
         (takeWhile (\<lambda>(s, r). r < 2 ^ 63)
            (filter (\<lambda>(s, r). - 80 \<le> r) (get_wifi_signal result)))"
  "fst (scan libm_pow now result db)
       = (if list_all (\<lambda>(s, r). r < 2 ^ 63) (get_wifi_signal result)
          then Inr ''Scan complete'' else Inl OverflowError)"
  using scan_rows [of libm_pow now result db] by auto

lemma takeWhile_all: "list_all P xs \<Longrightarrow> takeWhile P xs = xs"
  by (induction xs) simp_all

lemma stored_triple:
  "(s, r, calculate_distance libm_pow r)
      \<in> set (map (\<lambda>(s, r). (s, r, calculate_distance libm_pow r)) ps)
   \<longleftrightarrow> (s, r) \<in> set ps"
  by force

lemma sample_output:
  "get_wifi_signal (Inr ''HomeNet:-60\<newline>Guest:-85\<newline>'')
     = [(''HomeNet'', - 60), (''Guest'', - 85)]"
  by (simp add: get_wifi_signal_def strip_def strip_chars_def is_space_def is_int_space_def
      py_int_def MAX_STR_DIGITS_def parse_unsigned_def is_digit_def digit_val_def)

lemma positive_output:
  "get_wifi_signal (Inr ''Cafe:30'') = [(''Cafe'', 30)]"
  by (simp add: get_wifi_signal_def strip_def strip_chars_def is_space_def is_int_space_def
      py_int_def MAX_STR_DIGITS_def parse_unsigned_def is_digit_def digit_val_def)

lemma oversized_output:
  "get_wifi_signal (Inr ''A:-60\<newline>B:99999999999999999999\<newline>C:-61'')
     = [(''A'', - 60), (''B'', 99999999999999999999), (''C'', - 61)]"
  by (simp add: get_wifi_signal_def strip_def strip_chars_def is_space_def is_int_space_def
      py_int_def MAX_STR_DIGITS_def parse_unsigned_def is_digit_def digit_val_def)

lemma oversized_positive_output:
  "get_wifi_signal (Inr ''B:99999999999999999999'') = [(''B'', 99999999999999999999)]"
  by (simp add: get_wifi_signal_def strip_def strip_chars_def is_space_def is_int_space_def
      py_int_def MAX_STR_DIGITS_def parse_unsigned_def is_digit_def digit_val_def)

text \<open>
  C5 as stated fails for a signal that does not fit the INTEGER column: the insert of B
  raises OverflowError, which \<open>scan\<close> does not catch. The request ends there without its
  status, and C, whose signal \<open>-61\<close> is not below \<open>-80\<close>, is never stored.
\<close>

theorem scan_oversized_signal_counterexample:
  "map (\<lambda>r. (ssid r, rssi r))
     (rows (snd (scan correctly_rounded_pow sample_clock
        (Inr ''A:-60\<newline>B:99999999999999999999\<newline>C:-61'') empty_database)))
   = [(''A'', - 60)]
   \<and> fst (scan correctly_rounded_pow sample_clock
        (Inr ''A:-60\<newline>B:99999999999999999999\<newline>C:-61'') empty_database)
     = Inl OverflowError"
  by (simp add: scan_def oversized_output log_to_database_cases fits_sqlite_integer_def
      empty_database_def)

text \<open>
  Claim C5, as amended. Whatever the scan source did, \<open>scan\<close> keeps the readings already
  stored and never stores a reading whose signal as received is below \<open>-80\<close>: such a
  pair is skipped before \<open>calculate_distance\<close> and \<open>log_to_database\<close> are called. The
  pairs whose signal is not below \<open>-80\<close> are stored in order, each with the distance
  \<open>calculate_distance\<close> gives for its signal, up to the first one whose signal is
  \<open>2^63\<close> or more; there the insert raises OverflowError and the request ends. The
  answer is "Scan complete", and every pair from \<open>-80\<close> up is stored, exactly when every
  signal is below \<open>2^63\<close>.
\<close>

theorem scan_discards_weak_signals:
  "take (length (rows db)) (rows (snd (scan libm_pow now result db))) = rows db
   \<and> map (\<lambda>r. (ssid r, rssi r, distance r))
         (drop (length (rows db)) (rows (snd (scan libm_pow now result db))))
     = map (\<lambda>(s, r). (s, r, calculate_distance libm_pow r))
         (takeWhile (\<lambda>(s, r). r < 2 ^ 63)
            (filter (\<lambda>(s, r). - 80 \<le> r) (get_wifi_signal result)))
   \<and> (\<forall>r \<in> set (drop (length (rows db)) (rows (snd (scan libm_pow now result db)))).
        \<not> rssi r < - 80)
   \<and> fst (scan libm_pow now result db)
     = (if list_all (\<lambda>(s, r). r < 2 ^ 63) (get_wifi_signal result)
        then Inr ''Scan complete'' else Inl OverflowError)
   \<and> (list_all (\<lambda>(s, r). r < 2 ^ 63) (get_wifi_signal result) \<longrightarrow>
        map (\<lambda>r. (ssid r, rssi r, distance r))
          (drop (length (rows db)) (rows (snd (scan libm_pow now result db))))
        = map (\<lambda>(s, r). (s, r, calculate_distance libm_pow r))
            (filter (\<lambda>(s, r). - 80 \<le> r) (get_wifi_signal result)))"
proof (intro conjI impI)
  let ?new = "drop (length (rows db)) (rows (snd (scan libm_pow now result db)))"
  let ?passed = "filter (\<lambda>(s, r). - 80 \<le> r) (get_wifi_signal result)"
  show "take (length (rows db)) (rows (snd (scan libm_pow now result db))) = rows db"
    by (rule scan_new_rows)
  show eq: "map (\<lambda>r. (ssid r, rssi r, distance r)) ?new
     = map (\<lambda>(s, r). (s, r, calculate_distance libm_pow r))
         (takeWhile (\<lambda>(s, r). r < 2 ^ 63) ?passed)"
    by (rule scan_new_rows)
  show "\<forall>r \<in> set ?new. \<not> rssi r < - 80"
  proof
    fix r assume "r \<in> set ?new"
    then have "(ssid r, rssi r, distance r) \<in> set (map (\<lambda>r. (ssid r, rssi r, distance r)) ?new)"
      by (rule imageI [of r "set ?new" "\<lambda>r. (ssid r, rssi r, distance r)", simplified set_map [symmetric]])
    then have "(ssid r, rssi r, distance r)
        \<in> set (map (\<lambda>(s, r). (s, r, calculate_distance libm_pow r))
            (takeWhile (\<lambda>(s, r). r < 2 ^ 63) ?passed))"
      by (simp only: eq)
    then obtain p where "p \<in> set (takeWhile (\<lambda>(s, r). r < 2 ^ 63) ?passed)" "rssi r = snd p"
      by auto
    then have "p \<in> set ?passed" "rssi r = snd p" by (auto dest: set_takeWhileD)
    then show "\<not> rssi r < - 80" by auto
  qed
  show "fst (scan libm_pow now result db)
     = (if list_all (\<lambda>(s, r). r < 2 ^ 63) (get_wifi_signal result)
        then Inr ''Scan complete'' else Inl OverflowError)"
    by (rule scan_new_rows)
  show "map (\<lambda>r. (ssid r, rssi r, distance r)) ?new
        = map (\<lambda>(s, r). (s, r, calculate_distance libm_pow r)) ?passed"
    if "list_all (\<lambda>(s, r). r < 2 ^ 63) (get_wifi_signal result)"
  proof -
    have "list_all (\<lambda>(s, r). r < 2 ^ 63) ?passed"
      using that by (simp add: list_all_iff)
    then show ?thesis unfolding eq by (simp only: takeWhile_all)
  qed
qed

text \<open>
  The theorem on the output of two networks, HomeNet at \<open>-60\<close> and Guest at \<open>-85\<close>: only
  HomeNet is stored, and the answer is "Scan complete".
\<close>

theorem scan_discards_weak_signals_witness:
  "map (\<lambda>r. (ssid r, rssi r, distance r))
     (rows (snd (scan correctly_rounded_pow sample_clock
        (Inr ''HomeNet:-60\<newline>Guest:-85\<newline>'') empty_database)))
   = [(''HomeNet'', - 60, calculate_distance correctly_rounded_pow (- 60))]
   \<and> list_all (\<lambda>r. \<not> rssi r < - 80)
       (rows (snd (scan correctly_rounded_pow sample_clock
          (Inr ''HomeNet:-60\<newline>Guest:-85\<newline>'') empty_database)))
   \<and> fst (scan correctly_rounded_pow sample_clock
        (Inr ''HomeNet:-60\<newline>Guest:-85\<newline>'') empty_database)
     = Inr ''Scan complete''"
proof -
  note w = scan_discards_weak_signals [of empty_database correctly_rounded_pow sample_clock
      "Inr ''HomeNet:-60\<newline>Guest:-85\<newline>''"]
  have "map (\<lambda>r. (ssid r, rssi r, distance r))
     (rows (snd (scan correctly_rounded_pow sample_clock
        (Inr ''HomeNet:-60\<newline>Guest:-85\<newline>'') empty_database)))
   = [(''HomeNet'', - 60, calculate_distance correctly_rounded_pow (- 60))]"
    using w [THEN conjunct2, THEN conjunct2, THEN conjunct2, THEN conjunct2]
    by (simp add: sample_output empty_database_def)
  moreover have "list_all (\<lambda>r. \<not> rssi r < - 80)
       (rows (snd (scan correctly_rounded_pow sample_clock
          (Inr ''HomeNet:-60\<newline>Guest:-85\<newline>'') empty_database)))"
    using w [THEN conjunct2, THEN conjunct2, THEN conjunct1]
    by (simp add: empty_database_def list_all_iff)
  moreover have "fst (scan correctly_rounded_pow sample_clock
        (Inr ''HomeNet:-60\<newline>Guest:-85\<newline>'') empty_database)
     = Inr ''Scan complete''"
    using w [THEN conjunct2, THEN conjunct2, THEN conjunct2, THEN conjunct1]
    by (simp add: sample_output)
  ultimately show ?thesis by (intro conjI)
qed

lemma parse_lines_malformed:
  "l \<in> set ls \<Longrightarrow> malformed_line l \<Longrightarrow> \<exists>e. parse_lines ls = Inl e"
proof (induction ls)
  case Nil
  then show ?case by simp
next
  case (Cons a ls)
  show ?case
  proof (cases "malformed_line a")
    case True
    then show ?thesis
      by (auto simp: malformed_line_def split: list.splits sum.splits)
  next
    case False
    then have "l \<in> set ls" using Cons.prems by auto
    then obtain e where "parse_lines ls = Inl e" using Cons.IH Cons.prems(2) by blast
    then show ?thesis
      by (auto split: list.splits sum.splits)
  qed
qed

lemma scan_nothing:
  "get_wifi_signal result = [] \<Longrightarrow> scan libm_pow now result db = (Inr ''Scan complete'', db)"
  by (simp add: scan_def)

text \<open>
  Claim C9. When the scan utility cannot be run or fails, when it prints nothing, or when
  one line of its output is malformed, \<open>get_wifi_signal\<close> returns the empty list (it is a
  total function: nothing it raises reaches the caller), and \<open>scan\<close> answers
  "Scan complete" and leaves the store as it was.
\<close>

theorem scan_source_failure:
  assumes "result = Inl e \<or> result = Inr []
     \<or> (\<exists>out l. result = Inr out \<and> l \<in> set (split CHR 0x0A (strip out)) \<and> malformed_line l)"
  shows "get_wifi_signal result = []
       \<and> scan libm_pow now result db = (Inr ''Scan complete'', db)"
proof -
  have "get_wifi_signal result = []"
    using assms
  proof (elim disjE exE conjE)
    assume "result = Inl e"
    then show ?thesis by (simp add: get_wifi_signal_def)
  next
    assume "result = Inr []"
    then show ?thesis
      by (simp add: get_wifi_signal_def strip_def strip_chars_def py_int_def)
  next
    fix out l
    assume r: "result = Inr out" and "l \<in> set (split CHR 0x0A (strip out))" "malformed_line l"
    then obtain e' where "parse_lines (split CHR 0x0A (strip out)) = Inl e'"
      using parse_lines_malformed by blast
    then show ?thesis by (simp add: r get_wifi_signal_def)
  qed
  then show ?thesis by (simp add: scan_nothing)
qed

text \<open>
  The theorem for a utility that could not be run, for an empty output, and for an
  output whose second line has no signal.
\<close>

theorem scan_source_failure_witness:
  "scan correctly_rounded_pow sample_clock (Inl OSError) empty_database
     = (Inr ''Scan complete'', empty_database)
   \<and> scan correctly_rounded_pow sample_clock (Inr '''') empty_database
     = (Inr ''Scan complete'', empty_database)
   \<and> get_wifi_signal (Inr ''HomeNet:-60\<newline>Guest'') = []
   \<and> scan correctly_rounded_pow sample_clock (Inr ''HomeNet:-60\<newline>Guest'') empty_database
     = (Inr ''Scan complete'', empty_database)"
proof -
  have m: "\<exists>out l. (Inr ''HomeNet:-60\<newline>Guest'' :: py_exception + string) = Inr out
      \<and> l \<in> set (split CHR 0x0A (strip out)) \<and> malformed_line l"
    by (intro exI [of _ "''HomeNet:-60\<newline>Guest''"] exI [of _ "''Guest''"])
       (simp add: strip_def strip_chars_def is_space_def malformed_line_def)
  show ?thesis
    using scan_source_failure [of "Inl OSError" OSError correctly_rounded_pow sample_clock
        empty_database]
      scan_source_failure [of "Inr ''''" OSError correctly_rounded_pow sample_clock
        empty_database]
      scan_source_failure [of "Inr ''HomeNet:-60\<newline>Guest''" OSError
        correctly_rounded_pow sample_clock empty_database] m
    by simp
qed

text \<open>
  C6 as stated fails for a positive signal that does not fit the INTEGER column: it
  passes the filter, but its insert raises OverflowError and nothing is stored.
\<close>

theorem positive_rssi_not_persisted_counterexample:
  "(''B'', 99999999999999999999) \<in> set (get_wifi_signal (Inr ''B:99999999999999999999''))
   \<and> rows (snd (scan correctly_rounded_pow sample_clock
        (Inr ''B:99999999999999999999'') empty_database)) = []"
  by (simp add: scan_def oversized_positive_output log_to_database_cases
      fits_sqlite_integer_def empty_database_def)

text \<open>
  Claim C6, as amended. Both handlers test the signal as received, before
  \<open>calculate_distance\<close> normalizes it, so a pair with a positive signal always passes
  the filter. \<open>debug_logs\<close> returns the pairs whose raw signal is not below \<open>-80\<close>, the
  positive pair among them, with the distance the formula gives at the signal minus 100.
  \<open>scan\<close> stores the positive pair exactly when it and every pair before it that passed
  the filter have a signal below \<open>2^63\<close>; this is so when every signal of the output is
  below \<open>2^63\<close>.
\<close>

theorem positive_rssi_passes_filter:
  assumes "(s, r) \<in> set (get_wifi_signal result)" "0 < r"
  shows "\<not> r < - 80
       \<and> (s, r, calculate_distance libm_pow r) \<in> set (debug_logs libm_pow result)
       \<and> debug_logs libm_pow result
           = map (\<lambda>(s, r). (s, r, calculate_distance libm_pow r))
               (filter (\<lambda>(s, r). - 80 \<le> r) (get_wifi_signal result))
       \<and> ((s, r, calculate_distance libm_pow r)
             \<in> set (map (\<lambda>r. (ssid r, rssi r, distance r))
                 (drop (length (rows db)) (rows (snd (scan libm_pow now result db)))))
           \<longleftrightarrow> (s, r) \<in> set (takeWhile (\<lambda>(s, r). r < 2 ^ 63)
                 (filter (\<lambda>(s, r). - 80 \<le> r) (get_wifi_signal result))))
       \<and> (list_all (\<lambda>(s, r). r < 2 ^ 63) (get_wifi_signal result) \<longrightarrow>
            (s, r, calculate_distance libm_pow r)
              \<in> set (map (\<lambda>r. (ssid r, rssi r, distance r))
                  (drop (length (rows db)) (rows (snd (scan libm_pow now result db))))))
       \<and> calculate_distance libm_pow r
           = (case path_loss_feet libm_pow (r - 100) of Inl e \<Rightarrow> Fin 0 | Inr d \<Rightarrow> d)"
proof (intro conjI impI)
  let ?passed = "filter (\<lambda>(s, r). - 80 \<le> r) (get_wifi_signal result)"
  have passed: "(s, r) \<in> set ?passed" using assms by simp
  show "\<not> r < - 80" using assms(2) by simp
  show "(s, r, calculate_distance libm_pow r) \<in> set (debug_logs libm_pow result)"
    using passed by (simp only: debug_logs_def debug_loop_filter stored_triple)
  show "debug_logs libm_pow result
      = map (\<lambda>(s, r). (s, r, calculate_distance libm_pow r)) ?passed"
    by (simp only: debug_logs_def debug_loop_filter)
  show "(s, r, calculate_distance libm_pow r)
        \<in> set (map (\<lambda>r. (ssid r, rssi r, distance r))
            (drop (length (rows db)) (rows (snd (scan libm_pow now result db)))))
      \<longleftrightarrow> (s, r) \<in> set (takeWhile (\<lambda>(s, r). r < 2 ^ 63) ?passed)"
    by (simp only: scan_new_rows stored_triple)
  show "(s, r, calculate_distance libm_pow r)
        \<in> set (map (\<lambda>r. (ssid r, rssi r, distance r))
            (drop (length (rows db)) (rows (snd (scan libm_pow now result db)))))"
    if "list_all (\<lambda>(s, r). r < 2 ^ 63) (get_wifi_signal result)"
  proof -
    have "list_all (\<lambda>(s, r). r < 2 ^ 63) ?passed"
      using that by (simp add: list_all_iff)
    then have "takeWhile (\<lambda>(s, r). r < 2 ^ 63) ?passed = ?passed" by (rule takeWhile_all)
    then show ?thesis using passed by (simp only: scan_new_rows stored_triple)
  qed
  show "calculate_distance libm_pow r
      = (case path_loss_feet libm_pow (r - 100) of Inl e \<Rightarrow> Fin 0 | Inr d \<Rightarrow> d)"
    using assms(2) by (simp add: calculate_distance_def normalize_rssi_def)
qed

text \<open>
  The theorem for the output \<open>Cafe:30\<close>.
\<close>

theorem positive_rssi_passes_filter_witness:
  "(''Cafe'', 30, calculate_distance correctly_rounded_pow 30)
     \<in> set (map (\<lambda>r. (ssid r, rssi r, distance r))
         (rows (snd (scan correctly_rounded_pow sample_clock (Inr ''Cafe:30'')
            empty_database))))
   \<and> debug_logs correctly_rounded_pow (Inr ''Cafe:30'')
     = [(''Cafe'', 30, calculate_distance correctly_rounded_pow 30)]
   \<and> calculate_distance correctly_rounded_pow 30
     = (case path_loss_feet correctly_rounded_pow (- 70) of Inl e \<Rightarrow> Fin 0 | Inr d \<Rightarrow> d)"
proof -
  note w = positive_rssi_passes_filter [of "''Cafe''" 30 "Inr ''Cafe:30''"
      correctly_rounded_pow empty_database sample_clock]
  have h: "(''Cafe'', 30) \<in> set (get_wifi_signal (Inr ''Cafe:30''))" "(0::int) < 30"
    by (simp_all add: positive_output)
  have "(''Cafe'', 30, calculate_distance correctly_rounded_pow 30)
     \<in> set (map (\<lambda>r. (ssid r, rssi r, distance r))
         (rows (snd (scan correctly_rounded_pow sample_clock (Inr ''Cafe:30'')
            empty_database))))"
    using w [OF h, THEN conjunct2, THEN conjunct2, THEN conjunct2, THEN conjunct2,
        THEN conjunct1]
    by (simp add: positive_output empty_database_def)
  moreover have "debug_logs correctly_rounded_pow (Inr ''Cafe:30'')
      = [(''Cafe'', 30, calculate_distance correctly_rounded_pow 30)]"
    using w [OF h, THEN conjunct2, THEN conjunct2, THEN conjunct1]
    by (simp add: positive_output)
  moreover have "calculate_distance correctly_rounded_pow 30
     = (case path_loss_feet correctly_rounded_pow (- 70) of Inl e \<Rightarrow> Fin 0 | Inr d \<Rightarrow> d)"
    using w [OF h, THEN conjunct2, THEN conjunct2, THEN conjunct2, THEN conjunct2,
        THEN conjunct2]
    by simp
  ultimately show ?thesis by (intro conjI)
qed

text \<open>
  Claim C10. \<open>scan\<close> stores the signal of each pair as it received it, and the distance
  beside it is \<open>calculate_distance\<close> of that same value: if every stored reading has
  \<open>distance = calculate_distance rssi\<close> before a scan, every stored reading has it after,
  also when the scan ends with an exception. The pairs stored are pairs of the output,
  unchanged: those that passed the filter, up to the first whose insert raises. A
  stored signal may thus be positive, and then its distance is the one the formula
  gives at the signal minus 100; for a stored signal that is not positive the formula
  is applied to the signal itself.
\<close>

theorem scan_stores_raw_rssi:
  assumes "\<forall>r \<in> set (rows db). distance r = calculate_distance libm_pow (rssi r)"
  shows "(\<forall>r \<in> set (rows (snd (scan libm_pow now result db))).
            distance r = calculate_distance libm_pow (rssi r))
       \<and> map (\<lambda>r. (ssid r, rssi r))
             (drop (length (rows db)) (rows (snd (scan libm_pow now result db))))
           = takeWhile (\<lambda>(s, r). r < 2 ^ 63)
               (filter (\<lambda>(s, r). - 80 \<le> r) (get_wifi_signal result))
       \<and> (\<forall>r \<in> set (rows (snd (scan libm_pow now result db))). 0 < rssi r \<longrightarrow>
            distance r
              = (case path_loss_feet libm_pow (rssi r - 100) of Inl e \<Rightarrow> Fin 0 | Inr d \<Rightarrow> d))
       \<and> (\<forall>r \<in> set (rows (snd (scan libm_pow now result db))). rssi r \<le> 0 \<longrightarrow>
            distance r
              = (case path_loss_feet libm_pow (rssi r) of Inl e \<Rightarrow> Fin 0 | Inr d \<Rightarrow> d))"
proof -
  let ?stored = "takeWhile (\<lambda>(s, r). r < 2 ^ 63)
      (filter (\<lambda>(s, r). - 80 \<le> r) (get_wifi_signal result))"
  obtain new where new: "rows (snd (scan libm_pow now result db)) = rows db @ new"
    "map (\<lambda>r. (ssid r, rssi r, distance r)) new
       = map (\<lambda>(s, r). (s, r, calculate_distance libm_pow r)) ?stored"
    using scan_rows by blast
  have "distance r = calculate_distance libm_pow (rssi r)" if "r \<in> set new" for r
  proof -
    have "(ssid r, rssi r, distance r) \<in> set (map (\<lambda>r. (ssid r, rssi r, distance r)) new)"
      using that by force
    then show ?thesis unfolding new(2) by auto
  qed
  then have inv: "\<forall>r \<in> set (rows (snd (scan libm_pow now result db))).
      distance r = calculate_distance libm_pow (rssi r)"
    using assms by (auto simp: new(1))
  have raw: "map (\<lambda>r. (ssid r, rssi r)) new = ?stored"
  proof -
    have "map (\<lambda>r. (ssid r, rssi r)) new
        = map (\<lambda>(s, r, d). (s, r)) (map (\<lambda>r. (ssid r, rssi r, distance r)) new)"
      by simp
    also have "\<dots> = ?stored"
      unfolding new(2) by (simp add: case_prod_beta comp_def)
    finally show ?thesis .
  qed
  show ?thesis
  proof (intro conjI)
    show "\<forall>r \<in> set (rows (snd (scan libm_pow now result db))).
        distance r = calculate_distance libm_pow (rssi r)"
      by (rule inv)
    show "map (\<lambda>r. (ssid r, rssi r))
          (drop (length (rows db)) (rows (snd (scan libm_pow now result db)))) = ?stored"
      using raw by (simp add: new(1))
    show "\<forall>r \<in> set (rows (snd (scan libm_pow now result db))). 0 < rssi r \<longrightarrow>
        distance r
          = (case path_loss_feet libm_pow (rssi r - 100) of Inl e \<Rightarrow> Fin 0 | Inr d \<Rightarrow> d)"
      using inv by (simp add: calculate_distance_def normalize_rssi_def)
    show "\<forall>r \<in> set (rows (snd (scan libm_pow now result db))). rssi r \<le> 0 \<longrightarrow>
        distance r
          = (case path_loss_feet libm_pow (rssi r) of Inl e \<Rightarrow> Fin 0 | Inr d \<Rightarrow> d)"
      using inv by (simp add: calculate_distance_def normalize_rssi_def)
  qed
qed

text \<open>
  The theorem on a store that holds one reading, for the output \<open>Cafe:30\<close>: the positive
  signal 30 is stored as it is, with the distance of the formula at \<open>-70\<close>.
\<close>

theorem scan_stores_raw_rssi_witness:
  "map (\<lambda>r. (ssid r, rssi r, distance r))
     (rows (snd (scan correctly_rounded_pow sample_clock (Inr ''Cafe:30'')
        \<lparr>rows = [\<lparr>row_id = 1, timestamp = ''2024-01-01 00:00:00'', ssid = ''HomeNet'',
                   rssi = - 60, distance = calculate_distance correctly_rounded_pow (- 60)\<rparr>],
          seq = 1\<rparr>)))
   = [(''HomeNet'', - 60, calculate_distance correctly_rounded_pow (- 60)),
      (''Cafe'', 30,
       case path_loss_feet correctly_rounded_pow (- 70) of Inl e \<Rightarrow> Fin 0 | Inr d \<Rightarrow> d)]"
proof -
  let ?db = "\<lparr>rows = [\<lparr>row_id = 1, timestamp = ''2024-01-01 00:00:00'', ssid = ''HomeNet'',
                   rssi = - 60, distance = calculate_distance correctly_rounded_pow (- 60)\<rparr>],
          seq = 1\<rparr>"
  have h: "\<forall>r \<in> set (rows ?db). distance r = calculate_distance correctly_rounded_pow (rssi r)"
    by simp
  note w = scan_stores_raw_rssi [OF h, of sample_clock "Inr ''Cafe:30''"]
  have rows: "rows (snd (scan correctly_rounded_pow sample_clock (Inr ''Cafe:30'') ?db))
      = [\<lparr>row_id = 1, timestamp = ''2024-01-01 00:00:00'', ssid = ''HomeNet'',
           rssi = - 60, distance = calculate_distance correctly_rounded_pow (- 60)\<rparr>,
         \<lparr>row_id = 2, timestamp = ''2024-01-01 00:00:00'', ssid = ''Cafe'',
           rssi = 30, distance = calculate_distance correctly_rounded_pow 30\<rparr>]"
    by (simp add: scan_def positive_output log_to_database_cases fits_sqlite_integer_def
        strftime_sample_clock)
  have "calculate_distance correctly_rounded_pow 30
      = (case path_loss_feet correctly_rounded_pow (- 70) of Inl e \<Rightarrow> Fin 0 | Inr d \<Rightarrow> d)"
    using w [THEN conjunct2, THEN conjunct2, THEN conjunct1] unfolding rows by simp
  then show ?thesis unfolding rows by simp
qed

end
